theory Spec2Isabelle
  imports Main "HOL-Library.Multiset"
begin

section \<open>JavaScript values used by \<open>lib/utils.ts\<close>\<close>

text \<open>
  Strings are \<open>string\<close> (byte lists); a non-ASCII literal of the source is written as
  the bytes of its UTF-8 encoding. Every string operation the code uses (splitting at
  \<open>:\<close>, removing \<open>:\<close>, keeping the ASCII digits, joining with \<open>-\<close>, equality)
  acts on ASCII characters only, which never occur inside a multi-byte sequence, so the
  operations agree with those on the UTF-16 strings of the runtime.

  Numbers are the integer-valued doubles together with \<open>NaN\<close> and the two infinities.
  \<open>Num n\<close> is exact as long as magnitudes stay below \<open>2 ^ 53\<close>; the two zeros are not
  distinguished (they compare equal and print alike).
\<close>

datatype number = NaN | Num int | PosInfinity | NegInfinity

fun neg :: "number \<Rightarrow> number" where
  "neg NaN = NaN"
| "neg (Num a) = Num (- a)"
| "neg PosInfinity = NegInfinity"
| "neg NegInfinity = PosInfinity"

fun plus_n :: "number \<Rightarrow> number \<Rightarrow> number" where
  "plus_n NaN y = NaN"
| "plus_n x NaN = NaN"
| "plus_n (Num a) (Num b) = Num (a + b)"
| "plus_n PosInfinity NegInfinity = NaN"
| "plus_n NegInfinity PosInfinity = NaN"
| "plus_n PosInfinity y = PosInfinity"
| "plus_n NegInfinity y = NegInfinity"
| "plus_n (Num a) y = y"

definition minus_n :: "number \<Rightarrow> number \<Rightarrow> number" where
  "minus_n x y = plus_n x (neg y)"

fun times_n :: "number \<Rightarrow> number \<Rightarrow> number" where
  "times_n NaN y = NaN"
| "times_n x NaN = NaN"
| "times_n (Num a) (Num b) = Num (a * b)"
| "times_n (Num a) y = (if a = 0 then NaN else if 0 < a then y else neg y)"
| "times_n x (Num b) = (if b = 0 then NaN else if 0 < b then x else neg x)"
| "times_n PosInfinity y = y"
| "times_n NegInfinity y = neg y"

text \<open>The relational operator \<open><\<close>: false as soon as one operand is \<open>NaN\<close>.\<close>

fun less_n :: "number \<Rightarrow> number \<Rightarrow> bool" where
  "less_n NaN y = False"
| "less_n x NaN = False"
| "less_n (Num a) (Num b) = (a < b)"
| "less_n x NegInfinity = False"
| "less_n PosInfinity y = False"
| "less_n x PosInfinity = True"
| "less_n NegInfinity y = True"

text \<open>\<open>Math.floor(x / 60)\<close> and \<open>x % 60\<close>; the remainder takes the sign of the dividend.\<close>

fun floorDiv60 :: "number \<Rightarrow> number" where
  "floorDiv60 (Num a) = Num (a div 60)"
| "floorDiv60 x = x"

fun rem60 :: "number \<Rightarrow> number" where
  "rem60 (Num a) = Num (if a < 0 then - ((- a) mod 60) else a mod 60)"
| "rem60 x = NaN"

subsection \<open>Digits and conversions between strings and numbers\<close>

text \<open>The digit class of a regular expression: the code units \<open>0x30\<close> to \<open>0x39\<close>.\<close>

definition isDigit :: "char \<Rightarrow> bool" where
  "isDigit c = (48 \<le> (of_char c :: nat) \<and> (of_char c :: nat) \<le> 57)"

definition digitVal :: "char \<Rightarrow> nat" where
  "digitVal c = of_char c - 48"

definition digitChar :: "nat \<Rightarrow> char" where
  "digitChar d = char_of (48 + d)"

definition digitsValue :: "string \<Rightarrow> nat" where
  "digitsValue s = foldl (\<lambda>acc c. 10 * acc + digitVal c) 0 s"

function natToString :: "nat \<Rightarrow> string" where
  "natToString n = (if n < 10 then [digitChar n] else natToString (n div 10) @ [digitChar (n mod 10)])"
  by pat_completeness auto
termination
  by (relation "measure id") auto

declare natToString.simps [simp del]

text \<open>\<open>ToString\<close> of a number, as a template literal applies it.\<close>

fun toString :: "number \<Rightarrow> string" where
  "toString NaN = ''NaN''"
| "toString PosInfinity = ''Infinity''"
| "toString NegInfinity = ''-Infinity''"
| "toString (Num a) = (if a < 0 then ''-'' @ natToString (nat (- a)) else natToString (nat a))"

text \<open>
  \<open>Number(s)\<close> on a string, for the literals a clock time is made of: the empty string
  is \<open>0\<close>, a run of ASCII digits is its decimal value. Signed, fractional, exponent,
  radix-prefixed, blank-padded and \<open>Infinity\<close> literals lie outside this fragment (the
  model answers \<open>NaN\<close> for them, JavaScript another number); the theorems below apply
  \<open>Number\<close> only to digit runs and to strings holding a letter that no numeric literal
  contains.
\<close>

definition Number :: "string \<Rightarrow> number" where
  "Number s = (if s = [] then Num 0
               else if list_all isDigit s then Num (int (digitsValue s))
               else NaN)"

text \<open>
  \<open>parseInt(s)\<close> reads the longest prefix of digits and is \<open>NaN\<close> when there is none.
  The code calls it only on the result of deleting all non-digits, where white space, a
  sign or a radix prefix cannot occur. The code's result is a double: it is the integer
  written by the digits as long as that integer is below \<open>2 ^ 53\<close>, and a rounded value
  above. The model returns the integer, so it is the code's \<open>parseInt\<close> on digit runs
  whose value is below \<open>2 ^ 53\<close>; every statement below about the value of a parsed fare
  assumes that bound of the fares it speaks of.
\<close>

definition parseInt :: "string \<Rightarrow> number" where
  "parseInt s = (let ds = takeWhile isDigit s
                 in if ds = [] then NaN else Num (int (digitsValue ds)))"

text \<open>\<open>s.split(sep)\<close> for a one-character separator: always at least one piece.\<close>

fun split :: "char \<Rightarrow> string \<Rightarrow> string list" where
  "split sep [] = [[]]"
| "split sep (c # cs) =
     (if c = sep then [] # split sep cs
      else (case split sep cs of
              [] \<Rightarrow> [[c]]
            | p # ps \<Rightarrow> (c # p) # ps))"

text \<open>
  Array destructuring \<open>const [a, b] = xs\<close>: a position past the end binds
  \<open>undefined\<close>, which the arithmetic that follows converts to \<open>NaN\<close>.
\<close>

definition element :: "number list \<Rightarrow> nat \<Rightarrow> number" where
  "element xs i = (if i < length xs then xs ! i else NaN)"

section \<open>calculateDuration\<close>

text \<open>
  The body of the \<open>try\<close> block up to \<open>const duration\<close> (lines 72 to 83 of
  \<open>lib/utils.ts\<close>): the elapsed minutes.
\<close>

definition durationMinutes :: "string \<Rightarrow> string \<Rightarrow> number" where
  "durationMinutes departure arrival =
     (let dep = map Number (split CHR '':'' departure);
          arr = map Number (split CHR '':'' arrival);
          depHour = element dep 0; depMin = element dep 1;
          arrHour = element arr 0; arrMin = element arr 1;
          depMinutes = plus_n (times_n depHour (Num 60)) depMin;
          arrMinutes = plus_n (times_n arrHour (Num 60)) arrMin;
          arrMinutes' = (if less_n arrMinutes depMinutes
                         then plus_n arrMinutes (Num (24 * 60)) else arrMinutes)
      in minus_n arrMinutes' depMinutes)"

text \<open>Lines 84 to 91: the rendering, with the UTF-8 bytes of the two unit characters.\<close>

definition hourMark :: string where
  "hourMark = [CHR 0xE6, CHR 0x97, CHR 0xB6]"

definition minuteMark :: string where
  "minuteMark = [CHR 0xE5, CHR 0x88, CHR 0x86]"

definition formatDuration :: "number \<Rightarrow> string" where
  "formatDuration duration =
     (let hours = floorDiv60 duration; minutes = rem60 duration
      in if less_n (Num 0) hours
         then toString hours @ hourMark @ toString minutes @ minuteMark
         else toString minutes @ minuteMark)"

text \<open>
  The arguments are typed \<open>string\<close>; at run time a row of the API response may lack
  the field. \<open>None\<close> is such a missing (\<open>null\<close> or \<open>undefined\<close>) argument: calling
  \<open>.split\<close> on it throws a TypeError inside the \<open>try\<close> block, and the \<open>catch\<close>
  returns \<open>'-'\<close>. On strings nothing in the block throws.
\<close>

definition calculateDuration :: "string option \<Rightarrow> string option \<Rightarrow> string" where
  "calculateDuration departure arrival =
     (case departure of
        None \<Rightarrow> ''-''
      | Some d \<Rightarrow>
          (case arrival of
             None \<Rightarrow> ''-''
           | Some a \<Rightarrow> formatDuration (durationMinutes d a)))"

section \<open>groupRoutesByPath\<close>

text \<open>The interface \<open>FerryRoute\<close> of \<open>types/index.ts\<close>; the optional \<open>notes\<close> is \<open>route_notes\<close>.\<close>

record FerryRoute =
  departure_port :: string
  arrival_port :: string
  departure_time :: string
  arrival_time :: string
  company :: string
  ship_type :: string
  allows_vehicles :: bool
  allows_bicycles :: bool
  adult_fare :: string
  child_fare :: string
  operating_days :: string
  route_notes :: "string option"

text \<open>
  The interface \<open>RouteGroup\<close>. \<open>totalSchedules\<close> starts at 0 and is only ever
  incremented by one, so it is a natural number.
\<close>

record RouteGroup =
  routeKey :: string
  departure :: string
  arrival :: string
  schedules :: "FerryRoute list"
  companies :: "string list"
  minPrice :: number
  totalSchedules :: nat

text \<open>
  \<open>Map<string, RouteGroup>\<close> keeps its entries in insertion order: an association list.
  \<open>set\<close> on a key already present replaces the value where it stands; a new key goes
  to the end. \<open>has\<close> and \<open>get\<close> are \<open>map_of\<close>.
\<close>

type_synonym groupMap = "(string \<times> RouteGroup) list"

fun mapSet :: "string \<Rightarrow> RouteGroup \<Rightarrow> groupMap \<Rightarrow> groupMap" where
  "mapSet k v [] = [(k, v)]"
| "mapSet k v ((k', v') # m) = (if k' = k then (k, v) # m else (k', v') # mapSet k v m)"

text \<open>The template literal of line 26.\<close>

definition routeKeyOf :: "FerryRoute \<Rightarrow> string" where
  "routeKeyOf route = departure_port route @ ''-'' @ arrival_port route"

text \<open>The object literal of lines 29 to 37.\<close>

definition newGroup :: "FerryRoute \<Rightarrow> RouteGroup" where
  "newGroup route =
     \<lparr>routeKey = routeKeyOf route,
      departure = departure_port route,
      arrival = arrival_port route,
      schedules = [],
      companies = [],
      minPrice = PosInfinity,
      totalSchedules = 0\<rparr>"

text \<open>
  Lines 41 to 54, the mutations of the group object: push the route, push the company
  unless included, lower \<open>minPrice\<close> when the parsed fare is smaller (a comparison
  with \<open>NaN\<close> is false), count the schedule.
\<close>

definition accumulate :: "RouteGroup \<Rightarrow> FerryRoute \<Rightarrow> RouteGroup" where
  "accumulate grp route =
     (let g1 = grp\<lparr>schedules := schedules grp @ [route]\<rparr>;
          g2 = (if company route \<notin> set (companies g1)
                then g1\<lparr>companies := companies g1 @ [company route]\<rparr> else g1);
          adultFare = parseInt (filter isDigit (adult_fare route));
          g3 = (if less_n adultFare (minPrice g2) then g2\<lparr>minPrice := adultFare\<rparr> else g2)
      in g3\<lparr>totalSchedules := totalSchedules g3 + 1\<rparr>)"

text \<open>
  One round of \<open>routes.forEach\<close>; \<open>key\<close> is the source's \<open>routeKey\<close>. The object
  that \<open>get\<close> returns is the one stored under the key, so mutating it is storing the
  mutated group under the same key; the key is present at the \<open>get\<close> because it has
  just been set when it was absent.
\<close>

definition addRoute :: "groupMap \<Rightarrow> FerryRoute \<Rightarrow> groupMap" where
  "addRoute groupMap route =
     (let key = routeKeyOf route;
          groupMap1 = (if map_of groupMap key = None
                       then mapSet key (newGroup route) groupMap else groupMap);
          grp = the (map_of groupMap1 key)
      in mapSet key (accumulate grp route) groupMap1)"

text \<open>
  \<open>a.localeCompare(b)\<close> on strings of ASCII digits, which is what a clock time leaves
  once its colon is removed: there the collation of every locale is the comparison code
  unit by code unit, a proper prefix first. On strings with other characters (a second
  colon, letters) the collation of the runtime orders differently and the model is not
  the code. What is stated below of the order of a group's schedule list is therefore
  stated for departure times of the zero-padded form HH:MM, whose keys are four digits,
  or at a concrete input whose keys are digits; the lemmas on \<open>localeCompare\<close> and
  \<open>compareDeparture\<close> themselves are facts of this comparison.
\<close>

fun localeCompare :: "string \<Rightarrow> string \<Rightarrow> int" where
  "localeCompare [] [] = 0"
| "localeCompare [] (y # ys) = - 1"
| "localeCompare (x # xs) [] = 1"
| "localeCompare (x # xs) (y # ys) =
     (if (of_char x :: nat) < of_char y then - 1
      else if (of_char y :: nat) < of_char x then 1
      else localeCompare xs ys)"

text \<open>
  \<open>Array.prototype.sort\<close> with a comparator is stable, so for a comparator that is a
  consistent ordering its result is the stable sorted arrangement, built here by
  insertion from the right: an element goes before the first one it does not exceed.
\<close>

fun insertBy :: "('a \<Rightarrow> 'a \<Rightarrow> int) \<Rightarrow> 'a \<Rightarrow> 'a list \<Rightarrow> 'a list" where
  "insertBy cmp x [] = [x]"
| "insertBy cmp x (y # ys) = (if cmp x y \<le> 0 then x # y # ys else y # insertBy cmp x ys)"

definition sortBy :: "('a \<Rightarrow> 'a \<Rightarrow> int) \<Rightarrow> 'a list \<Rightarrow> 'a list" where
  "sortBy cmp xs = foldr (insertBy cmp) xs []"

text \<open>The comparator of lines 59 to 63; \<open>replace(':', '')\<close> deletes the first colon.\<close>

definition compareDeparture :: "FerryRoute \<Rightarrow> FerryRoute \<Rightarrow> int" where
  "compareDeparture a b =
     (let timeA = remove1 CHR '':'' (departure_time a);
          timeB = remove1 CHR '':'' (departure_time b)
      in localeCompare timeA timeB)"

definition sortSchedules :: "RouteGroup \<Rightarrow> RouteGroup" where
  "sortSchedules grp = grp\<lparr>schedules := sortBy compareDeparture (schedules grp)\<rparr>"

definition groupRoutesByPath :: "FerryRoute list \<Rightarrow> RouteGroup list" where
  "groupRoutesByPath routes =
     (let groupMap = foldl addRoute [] routes;
          groupMap' = map (\<lambda>(k, grp). (k, sortSchedules grp)) groupMap
      in map snd groupMap')"

section \<open>The date-limited flag of the RouteGroup component\<close>

text \<open>The literal of line 18 of the component, U+671F U+9593 U+9650 U+5B9A, in UTF-8.\<close>

definition limitedPeriodMarker :: string where
  "limitedPeriodMarker =
     [CHR 0xE6, CHR 0x9C, CHR 0x9F, CHR 0xE9, CHR 0x96, CHR 0x93,
      CHR 0xE9, CHR 0x99, CHR 0x90, CHR 0xE5, CHR 0xAE, CHR 0x9A]"

text \<open>
  \<open>Array.prototype.some\<close>: the elements are tested in order, from the first, and the
  result is true at the first one that passes, false when the array is exhausted.
\<close>

fun some :: "('a \<Rightarrow> bool) \<Rightarrow> 'a list \<Rightarrow> bool" where
  "some p [] = False"
| "some p (x # xs) = (if p x then True else some p xs)"

text \<open>\<open>routeGroup.schedules.some(...)\<close>, lines 17 to 19.\<close>

definition isLimitedPeriod :: "RouteGroup \<Rightarrow> bool" where
  "isLimitedPeriod routeGroup =
     some (\<lambda>schedule. operating_days schedule = limitedPeriodMarker) (schedules routeGroup)"

text \<open>
  The schedules the component renders. Collapsed, the preview (line 110) maps over
  \<open>routeGroup.schedules.slice(0, 3)\<close>; expanded, the table (line 144) maps over
  \<open>routeGroup.schedules\<close>. The flag is read only for the banner (line 46), the colours
  and the box of operating details (lines 44, 197 to 219).
\<close>

definition renderedSchedules :: "RouteGroup \<Rightarrow> bool \<Rightarrow> FerryRoute list" where
  "renderedSchedules routeGroup isExpanded =
     (if \<not> isExpanded then take 3 (schedules routeGroup) else schedules routeGroup)"

section \<open>Notions of the specification\<close>

definition digitRun :: "string \<Rightarrow> bool" where
  "digitRun s = (s \<noteq> [] \<and> list_all isDigit s)"

definition pad2 :: "nat \<Rightarrow> string" where
  "pad2 n = [digitChar (n div 10), digitChar (n mod 10)]"

definition clockString :: "nat \<Rightarrow> string" where
  "clockString t = pad2 (t div 60) @ '':'' @ pad2 (t mod 60)"

definition wellFormedTime :: "string \<Rightarrow> bool" where
  "wellFormedTime s =
     (length s = 5 \<and> isDigit (s ! 0) \<and> isDigit (s ! 1) \<and> s ! 2 = CHR '':'' \<and>
      isDigit (s ! 3) \<and> isDigit (s ! 4) \<and>
      digitsValue (take 2 s) < 24 \<and> digitsValue (drop 3 s) < 60)"

definition minuteOfDay :: "string \<Rightarrow> nat" where
  "minuteOfDay s = 60 * digitsValue (take 2 s) + digitsValue (drop 3 s)"

definition rotate_time :: "nat \<Rightarrow> string \<Rightarrow> string" where
  "rotate_time k s = clockString ((minuteOfDay s + k) mod 1440)"

text \<open>The distinct elements of a list in the order of their first occurrence.\<close>

fun firstSeen :: "'a list \<Rightarrow> 'a list" where
  "firstSeen [] = []"
| "firstSeen (x # xs) = x # removeAll x (firstSeen xs)"

text \<open>The rows of the input that carry a given route key, in input order.\<close>

definition members :: "string \<Rightarrow> FerryRoute list \<Rightarrow> FerryRoute list" where
  "members k routes = filter (\<lambda>r. routeKeyOf r = k) routes"

text \<open>
  The minimum price in the specification's words: strip every non-digit character of a
  fare and read the rest as an integer; only fares with at least one digit take part;
  without any such fare the value is the sentinel the code starts from, \<open>Infinity\<close>.
\<close>

definition hasDigit :: "string \<Rightarrow> bool" where
  "hasDigit s = list_ex isDigit s"

definition fareAmount :: "string \<Rightarrow> nat" where
  "fareAmount s = digitsValue (filter isDigit s)"

definition pricedFares :: "FerryRoute list \<Rightarrow> nat list" where
  "pricedFares rs = map (\<lambda>r. fareAmount (adult_fare r)) (filter (\<lambda>r. hasDigit (adult_fare r)) rs)"

definition expectedMinPrice :: "FerryRoute list \<Rightarrow> number" where
  "expectedMinPrice rs =
     (if pricedFares rs = [] then PosInfinity else Num (int (Min (set (pricedFares rs)))))"

text \<open>The group that a non-empty list of member rows, taken in input order, determines.\<close>

definition groupOfMembers :: "string \<Rightarrow> FerryRoute list \<Rightarrow> RouteGroup" where
  "groupOfMembers k rs =
     \<lparr>routeKey = k,
      departure = departure_port (hd rs),
      arrival = arrival_port (hd rs),
      schedules = rs,
      companies = firstSeen (map company rs),
      minPrice = expectedMinPrice rs,
      totalSchedules = length rs\<rparr>"

text \<open>
  The map that the accumulation loop is shown to build: the route keys in first-seen
  order, each with the group of its member rows.
\<close>

definition groupedMap :: "FerryRoute list \<Rightarrow> groupMap" where
  "groupedMap routes =
     map (\<lambda>k. (k, groupOfMembers k (members k routes))) (firstSeen (map routeKeyOf routes))"

text \<open>
  A row for the examples: ports, departure time, company and adult fare are given, the
  other fields are fixed.
\<close>

definition sampleRoute :: "string \<Rightarrow> string \<Rightarrow> string \<Rightarrow> string \<Rightarrow> string \<Rightarrow> FerryRoute" where
  "sampleRoute dport aport dtime cname fare =
     \<lparr>departure_port = dport, arrival_port = aport, departure_time = dtime,
      arrival_time = ''23:59'', company = cname, ship_type = ''ferry'',
      allows_vehicles = True, allows_bicycles = True, adult_fare = fare,
      child_fare = fare, operating_days = ''daily'', route_notes = None\<rparr>"

text \<open>
  The minute of the day of a clock time whose hour may have one digit or two: the digits
  before the first colon are the hour, those after it the minute.
\<close>

definition clockMinutes :: "string \<Rightarrow> nat" where
  "clockMinutes s =
     60 * digitsValue (takeWhile (\<lambda>c. c \<noteq> CHR '':'') s) +
     digitsValue (drop 1 (dropWhile (\<lambda>c. c \<noteq> CHR '':'') s))"

text \<open>A schedule list in the order of the minute of the day of its departure times.\<close>

definition sortedByClock :: "FerryRoute list \<Rightarrow> bool" where
  "sortedByClock rs =
     sorted_wrt (\<lambda>a b. clockMinutes (departure_time a) \<le> clockMinutes (departure_time b)) rs"

text \<open>
  The rows of the specification's scenario (Takamatsu to Naoshima at 08:00 and at 23:50,
  fare of 1,220 yen written with the yen sign U+00A5), and a row of another route whose
  fare has no digit.
\<close>

definition yenFare :: string where
  "yenFare = [CHR 0xC2, CHR 0xA5] @ ''1,220''"

definition scenarioRows :: "FerryRoute list" where
  "scenarioRows =
     [sampleRoute ''Takamatsu'' ''Naoshima'' ''23:50'' ''Shikoku Kisen'' yenFare,
      sampleRoute ''Uno'' ''Uno'' ''07:15'' ''Shodoshima Ferry'' ''ask at the counter'',
      sampleRoute ''Takamatsu'' ''Naoshima'' ''08:00'' ''Shikoku Kisen'' yenFare]"

text \<open>Two rows of one route that leave at the same time with different companies.\<close>

definition sameTimeRows :: "FerryRoute list" where
  "sameTimeRows =
     [sampleRoute ''Takamatsu'' ''Naoshima'' ''08:00'' ''Shikoku Kisen'' yenFare,
      sampleRoute ''Takamatsu'' ''Naoshima'' ''08:00'' ''Jumbo Ferry'' yenFare]"

text \<open>Two rows with different port pairs whose hyphen-joined keys coincide.\<close>

definition hyphenRows :: "FerryRoute list" where
  "hyphenRows =
     [sampleRoute ''Uno-Ko'' ''Miyanoura'' ''08:00'' ''Shikoku Kisen'' yenFare,
      sampleRoute ''Uno'' ''Ko-Miyanoura'' ''09:00'' ''Shikoku Kisen'' yenFare]"

definition routePair :: "FerryRoute \<Rightarrow> string \<times> string" where
  "routePair r = (departure_port r, arrival_port r)"

text \<open>
  Four sailings of one route and one of another. The second row is date-limited: its
  \<open>operating_days\<close> is the string of the source's literal, written out.
\<close>

definition limitedRows :: "FerryRoute list" where
  "limitedRows =
     [sampleRoute ''Takamatsu'' ''Naoshima'' ''08:00'' ''Shikoku Kisen'' yenFare,
      (sampleRoute ''Takamatsu'' ''Naoshima'' ''10:00'' ''Shikoku Kisen'' yenFare)
        \<lparr>operating_days :=
           [CHR 0xE6, CHR 0x9C, CHR 0x9F, CHR 0xE9, CHR 0x96, CHR 0x93,
            CHR 0xE9, CHR 0x99, CHR 0x90, CHR 0xE5, CHR 0xAE, CHR 0x9A]\<rparr>,
      sampleRoute ''Takamatsu'' ''Naoshima'' ''12:00'' ''Shikoku Kisen'' yenFare,
      sampleRoute ''Uno'' ''Teshima'' ''09:00'' ''Shodoshima Ferry'' yenFare,
      sampleRoute ''Takamatsu'' ''Naoshima'' ''14:00'' ''Shikoku Kisen'' yenFare]"

section \<open>Properties\<close>

lemma split_no_sep: "sep \<notin> set s \<Longrightarrow> split sep s = [s]"
  by (induction s) auto

lemma split_at_sep: "sep \<notin> set hs \<Longrightarrow> split sep (hs @ sep # ms) = hs # split sep ms"
  by (induction hs) auto

lemma not_isDigit_colon: "\<not> isDigit CHR '':''"
  by (simp add: isDigit_def)

lemma colon_not_digit: "list_all isDigit s \<Longrightarrow> CHR '':'' \<notin> set s"
  using not_isDigit_colon by (induction s) auto

lemma split_clock:
  "list_all isDigit hs \<Longrightarrow> list_all isDigit ms \<Longrightarrow> split CHR '':'' (hs @ CHR '':'' # ms) = [hs, ms]"
  by (simp add: split_at_sep split_no_sep colon_not_digit)

lemma Number_digitRun: "digitRun s \<Longrightarrow> Number s = Num (int (digitsValue s))"
  by (auto simp: digitRun_def Number_def)

lemma durationMinutes_digitRuns:
  assumes "digitRun dh" "digitRun dm" "digitRun ah" "digitRun am"
  shows "durationMinutes (dh @ '':'' @ dm) (ah @ '':'' @ am) =
     (let d = 60 * int (digitsValue dh) + int (digitsValue dm);
          a = 60 * int (digitsValue ah) + int (digitsValue am)
      in Num (if a < d then a + 1440 - d else a - d))"
proof -
  have s1: "split CHR '':'' (dh @ '':'' @ dm) = [dh, dm]"
    using assms by (simp add: split_at_sep split_no_sep colon_not_digit digitRun_def)
  have s2: "split CHR '':'' (ah @ '':'' @ am) = [ah, am]"
    using assms by (simp add: split_at_sep split_no_sep colon_not_digit digitRun_def)
  show ?thesis
    unfolding durationMinutes_def s1 s2
    using assms by (simp add: Number_digitRun element_def minus_n_def Let_def)
qed

lemma digitChar_digit: "d < 10 \<Longrightarrow> isDigit (digitChar d)"
  by (simp add: isDigit_def digitChar_def)

lemma digitVal_digitChar: "d < 10 \<Longrightarrow> digitVal (digitChar d) = d"
  by (simp add: digitVal_def digitChar_def)

lemma digitChar_digitVal: "isDigit c \<Longrightarrow> digitChar (digitVal c) = c"
  by (simp add: isDigit_def digitVal_def digitChar_def)

lemma digitVal_less: "isDigit c \<Longrightarrow> digitVal c < 10"
  by (auto simp: isDigit_def digitVal_def)

lemma pad2_digitRun: "n < 100 \<Longrightarrow> digitRun (pad2 n)"
  by (simp add: digitRun_def pad2_def digitChar_digit)

lemma pad2_value: "n < 100 \<Longrightarrow> digitsValue (pad2 n) = n"
  by (simp add: digitsValue_def pad2_def digitVal_digitChar)


lemma wrap_mod:
  fixes a d :: int
  assumes "0 \<le> d" "d < 1440" "0 \<le> a" "a < 1440"
  shows "(if a < d then a + 1440 - d else a - d) = (a - d) mod 1440"
proof (cases "a < d")
  case True
  then have "(a - d) mod 1440 = (a - d + 1440) mod 1440" by simp
  also have "\<dots> = a - d + 1440" using True assms by (intro mod_pos_pos_trivial) auto
  finally show ?thesis using True by simp
next
  case False
  then have "(a - d) mod 1440 = a - d" using assms by (intro mod_pos_pos_trivial) auto
  then show ?thesis using False by simp
qed

lemma formatDuration_nonneg:
  "0 \<le> n \<Longrightarrow> formatDuration (Num n) =
     (if 60 \<le> n
      then natToString (nat (n div 60)) @ hourMark @ natToString (nat (n mod 60)) @ minuteMark
      else natToString (nat n) @ minuteMark)"
  by (auto simp: formatDuration_def Let_def pos_imp_zdiv_nonneg_iff div_pos_pos_trivial
        dest: pos_imp_zdiv_pos_iff[THEN iffD1, rotated])

text \<open>
  Claim C2. For departure and arrival times that parse as clock times (an hour run and a
  minute run of digits around one colon, hour below 24, minute below 60), the elapsed
  minutes computed by \<open>calculateDuration\<close> are \<open>(arrival - departure) mod 1440\<close>: 24 hours
  are added when the arrival is earlier than the departure, equal times give zero, and
  the string returned renders that number of minutes.
\<close>

theorem calculateDuration_clock_times:
  assumes "digitRun dh" and "digitRun dm" and "digitRun ah" and "digitRun am"
      and "digitsValue dh < 24" and "digitsValue dm < 60"
      and "digitsValue ah < 24" and "digitsValue am < 60"
  shows "let d = 60 * int (digitsValue dh) + int (digitsValue dm);
             a = 60 * int (digitsValue ah) + int (digitsValue am);
             n = (a - d) mod 1440
         in durationMinutes (dh @ '':'' @ dm) (ah @ '':'' @ am) = Num n \<and>
            (a < d \<longrightarrow> n = a + 24 * 60 - d) \<and>
            (a = d \<longrightarrow> n = 0) \<and>
            calculateDuration (Some (dh @ '':'' @ dm)) (Some (ah @ '':'' @ am)) =
              (if 60 \<le> n
               then natToString (nat (n div 60)) @ hourMark @ natToString (nat (n mod 60)) @ minuteMark
               else natToString (nat n) @ minuteMark)"
proof -
  define d where "d = 60 * int (digitsValue dh) + int (digitsValue dm)"
  define a where "a = 60 * int (digitsValue ah) + int (digitsValue am)"
  define n where "n = (a - d) mod 1440"
  have bounds: "0 \<le> d" "d < 1440" "0 \<le> a" "a < 1440"
    using assms(5-8) by (simp_all add: d_def a_def)
  have w: "(if a < d then a + 1440 - d else a - d) = n"
    unfolding n_def using bounds by (rule wrap_mod)
  have dm: "durationMinutes (dh @ '':'' @ dm) (ah @ '':'' @ am) = Num n"
    using durationMinutes_digitRuns[OF assms(1-4), unfolded Let_def, folded d_def a_def] w by simp
  have n0: "0 \<le> n" by (simp add: n_def)
  have fmt: "calculateDuration (Some (dh @ '':'' @ dm)) (Some (ah @ '':'' @ am)) =
      (if 60 \<le> n
       then natToString (nat (n div 60)) @ hourMark @ natToString (nat (n mod 60)) @ minuteMark
       else natToString (nat n) @ minuteMark)"
    unfolding calculateDuration_def option.case dm by (rule formatDuration_nonneg[OF n0])
  have lt: "a < d \<longrightarrow> n = a + 24 * 60 - d" using w by auto
  have eq: "a = d \<longrightarrow> n = 0" by (simp add: n_def)
  show ?thesis
    unfolding Let_def d_def[symmetric] a_def[symmetric] n_def[symmetric]
    using dm fmt lt eq by blast
qed

text \<open>The instance of the scenario: departure 23:50, arrival 00:10, twenty minutes.\<close>

theorem calculateDuration_clock_times_witness:
  "digitRun ''23'' \<and> digitRun ''50'' \<and> digitRun ''00'' \<and> digitRun ''10'' \<and>
   digitsValue ''23'' < 24 \<and> digitsValue ''50'' < 60 \<and>
   digitsValue ''00'' < 24 \<and> digitsValue ''10'' < 60 \<and>
   durationMinutes ''23:50'' ''00:10'' = Num 20 \<and>
   calculateDuration (Some ''23:50'') (Some ''00:10'') = ''20'' @ minuteMark"
proof -
  have h: "digitRun ''23''" "digitRun ''50''" "digitRun ''00''" "digitRun ''10''"
    by (simp_all add: digitRun_def isDigit_def)
  have v: "digitsValue ''23'' = 23" "digitsValue ''50'' = 50"
          "digitsValue ''00'' = 0" "digitsValue ''10'' = 10"
    by (simp_all add: digitsValue_def digitVal_def)
  have s: "natToString 20 = ''20''"
    by code_simp
  show ?thesis
    using calculateDuration_clock_times[of "''23''" "''50''" "''00''" "''10''"] h s
    by (simp add: v Let_def)
qed

lemma wellFormedTime_decompose:
  assumes "wellFormedTime s"
  shows "s = take 2 s @ '':'' @ drop 3 s" "digitRun (take 2 s)" "digitRun (drop 3 s)"
proof -
  from assms have len: "length s = 5" by (simp add: wellFormedTime_def)
  then obtain a b c d e where s: "s = [a, b, c, d, e]"
    by (auto simp: eval_nat_numeral length_Suc_conv)
  from assms show "s = take 2 s @ '':'' @ drop 3 s"
    unfolding s by (simp add: wellFormedTime_def eval_nat_numeral)
  from assms show "digitRun (take 2 s)"
    unfolding s by (simp add: wellFormedTime_def digitRun_def eval_nat_numeral)
  from assms show "digitRun (drop 3 s)"
    unfolding s by (simp add: wellFormedTime_def digitRun_def eval_nat_numeral)
qed

lemma wellFormedTime_minuteOfDay: "wellFormedTime s \<Longrightarrow> minuteOfDay s < 1440"
  by (simp add: wellFormedTime_def minuteOfDay_def)

lemma durationMinutes_wellFormed:
  assumes "wellFormedTime dep" "wellFormedTime arr"
  shows "durationMinutes dep arr = Num ((int (minuteOfDay arr) - int (minuteOfDay dep)) mod 1440)"
proof -
  note d = wellFormedTime_decompose[OF assms(1)]
  note a = wellFormedTime_decompose[OF assms(2)]
  have "durationMinutes (take 2 dep @ '':'' @ drop 3 dep) (take 2 arr @ '':'' @ drop 3 arr) =
      Num (if int (minuteOfDay arr) < int (minuteOfDay dep)
           then int (minuteOfDay arr) + 1440 - int (minuteOfDay dep)
           else int (minuteOfDay arr) - int (minuteOfDay dep))"
    using durationMinutes_digitRuns[OF d(2,3) a(2,3)] by (simp add: Let_def minuteOfDay_def)
  also have "\<dots> = Num ((int (minuteOfDay arr) - int (minuteOfDay dep)) mod 1440)"
    using wrap_mod[of "int (minuteOfDay dep)" "int (minuteOfDay arr)"]
      wellFormedTime_minuteOfDay[OF assms(1)] wellFormedTime_minuteOfDay[OF assms(2)]
    by simp
  finally show ?thesis using d(1) a(1) by simp
qed

lemma digitsValue_two: "digitsValue [a, b] = 10 * digitVal a + digitVal b"
  by (simp add: digitsValue_def)

lemma pad2_digitsValue: "isDigit a \<Longrightarrow> isDigit b \<Longrightarrow> pad2 (digitsValue [a, b]) = [a, b]"
proof -
  assume a: "isDigit a" and b: "isDigit b"
  have "digitVal b < 10" using b by (rule digitVal_less)
  then have "(10 * digitVal a + digitVal b) div 10 = digitVal a"
       "(10 * digitVal a + digitVal b) mod 10 = digitVal b" by auto
  then show ?thesis using a b by (simp add: pad2_def digitsValue_two digitChar_digitVal)
qed

lemma clockString_minuteOfDay:
  assumes "wellFormedTime s"
  shows "clockString (minuteOfDay s) = s"
proof -
  from assms have len: "length s = 5" by (simp add: wellFormedTime_def)
  then obtain a b c d e where s: "s = [a, b, c, d, e]"
    by (auto simp: eval_nat_numeral length_Suc_conv)
  from assms have dg: "isDigit a" "isDigit b" "c = CHR '':''" "isDigit d" "isDigit e"
    and m: "digitsValue [d, e] < 60"
    unfolding s by (simp_all add: wellFormedTime_def eval_nat_numeral)
  have "minuteOfDay s = 60 * digitsValue [a, b] + digitsValue [d, e]"
    unfolding s by (simp add: minuteOfDay_def eval_nat_numeral)
  then have "minuteOfDay s div 60 = digitsValue [a, b]" "minuteOfDay s mod 60 = digitsValue [d, e]"
    using m by auto
  then show ?thesis
    using dg by (simp add: clockString_def pad2_digitsValue s)
qed

lemma wellFormedTime_clockString:
  assumes "t < 1440"
  shows "wellFormedTime (clockString t)" "minuteOfDay (clockString t) = t"
proof -
  have h: "t div 60 < 24" "t mod 60 < 60" using assms by auto
  then have h': "t div 60 < 100" "t mod 60 < 100" by auto
  have d: "t div 60 div 10 < 10" "t div 60 mod 10 < 10" "t mod 60 div 10 < 10" "t mod 60 mod 10 < 10"
    using h by auto
  have v: "digitsValue (pad2 (t div 60)) = t div 60" "digitsValue (pad2 (t mod 60)) = t mod 60"
    using h' by (simp_all add: pad2_value)
  have tk: "take 2 (clockString t) = pad2 (t div 60)" "drop 3 (clockString t) = pad2 (t mod 60)"
    by (simp_all add: clockString_def pad2_def)
  show "wellFormedTime (clockString t)"
    unfolding wellFormedTime_def tk v using h d
    by (simp add: clockString_def pad2_def digitChar_digit)
  show "minuteOfDay (clockString t) = t"
    unfolding minuteOfDay_def tk v by simp
qed

lemma wellFormedTime_rotate:
  "wellFormedTime (rotate_time k s)" "minuteOfDay (rotate_time k s) = (minuteOfDay s + k) mod 1440"
  by (simp_all add: rotate_time_def wellFormedTime_clockString)

lemma minuteOfDay_inj:
  "wellFormedTime s \<Longrightarrow> wellFormedTime t \<Longrightarrow> minuteOfDay s = minuteOfDay t \<Longrightarrow> s = t"
  by (metis clockString_minuteOfDay)

lemma mod_1440_zero_iff:
  fixes a d :: nat
  assumes "a < 1440" "d < 1440"
  shows "((int a - int d) mod 1440 = 0) = (a = d)"
proof
  assume z: "(int a - int d) mod 1440 = 0"
  have "(if int a < int d then int a + 1440 - int d else int a - int d) = (int a - int d) mod 1440"
    using assms by (intro wrap_mod) auto
  with z show "a = d" using assms by (auto split: if_splits)
qed simp

text \<open>
  Claim C8. For well-formed HH:MM departure and arrival times the duration is a number of
  minutes that is at least 0; rotating both times by the same \<open>k\<close> minutes modulo 1440
  leaves it unchanged; and the original pair, like the rotated pair, yields zero minutes
  exactly when the original departure and arrival are equal.
\<close>
theorem durationMinutes_rotation_invariant:
  assumes "wellFormedTime dep" and "wellFormedTime arr"
  shows "(\<exists>n. durationMinutes dep arr = Num n \<and> 0 \<le> n) \<and>
         durationMinutes (rotate_time k dep) (rotate_time k arr) = durationMinutes dep arr \<and>
         (durationMinutes dep arr = Num 0 \<longleftrightarrow> dep = arr) \<and>
         (durationMinutes (rotate_time k dep) (rotate_time k arr) = Num 0 \<longleftrightarrow> dep = arr)"
proof -
  let ?d = "minuteOfDay dep" and ?a = "minuteOfDay arr"
  have orig: "durationMinutes dep arr = Num ((int ?a - int ?d) mod 1440)"
    using assms by (rule durationMinutes_wellFormed)
  have "durationMinutes (rotate_time k dep) (rotate_time k arr) =
      Num ((int ((?a + k) mod 1440) - int ((?d + k) mod 1440)) mod 1440)"
    by (simp add: durationMinutes_wellFormed wellFormedTime_rotate)
  also have "(int ((?a + k) mod 1440) - int ((?d + k) mod 1440)) mod 1440 =
      ((int ?a + int k) mod 1440 - (int ?d + int k) mod 1440) mod 1440"
    by (simp add: zmod_int)
  also have "\<dots> = ((int ?a + int k) - (int ?d + int k)) mod 1440"
    by (simp only: mod_diff_eq)
  also have "\<dots> = (int ?a - int ?d) mod 1440" by simp
  finally have rot: "durationMinutes (rotate_time k dep) (rotate_time k arr) = durationMinutes dep arr"
    using orig by simp
  have zero: "durationMinutes dep arr = Num 0 \<longleftrightarrow> dep = arr"
  proof -
    have "durationMinutes dep arr = Num 0 \<longleftrightarrow> ?a = ?d"
      using orig mod_1440_zero_iff[OF wellFormedTime_minuteOfDay[OF assms(2)]
          wellFormedTime_minuteOfDay[OF assms(1)]] by simp
    also have "\<dots> \<longleftrightarrow> dep = arr"
      using minuteOfDay_inj[OF assms] by auto
    finally show ?thesis .
  qed
  have nonneg: "\<exists>n. durationMinutes dep arr = Num n \<and> 0 \<le> n"
    using orig by simp
  show ?thesis using nonneg rot zero by simp
qed

text \<open>Rotating 23:50 and 00:10 by thirty minutes: 00:20 and 00:40, the same twenty minutes.\<close>

theorem durationMinutes_rotation_invariant_witness:
  "wellFormedTime ''23:50'' \<and> wellFormedTime ''00:10'' \<and>
   rotate_time 30 ''23:50'' = ''00:20'' \<and> rotate_time 30 ''00:10'' = ''00:40'' \<and>
   durationMinutes ''00:20'' ''00:40'' = durationMinutes ''23:50'' ''00:10'' \<and>
   durationMinutes ''23:50'' ''00:10'' \<noteq> Num 0"
proof -
  have w: "wellFormedTime ''23:50''" "wellFormedTime ''00:10''"
    by (simp_all add: wellFormedTime_def isDigit_def digitsValue_def digitVal_def)
  have r: "rotate_time 30 ''23:50'' = ''00:20''" "rotate_time 30 ''00:10'' = ''00:40''"
    by code_simp+
  show ?thesis
    using durationMinutes_rotation_invariant[OF w, of 30] w r by simp
qed

text \<open>
  Claim C5 says that strings malformed as HH:MM times give the sentinel \<open>'-'\<close>. The
  \<open>catch\<close> that returns it is reached only by a missing argument: on a string without
  a colon, and on the empty string, the arithmetic runs on \<open>NaN\<close> without throwing and
  the text \<open>NaN\<close> followed by the minute mark is returned.
\<close>
theorem calculateDuration_malformed_strings:
  "calculateDuration (Some ''08h00'') (Some ''10:00'') = ''NaN'' @ minuteMark \<and>
   calculateDuration (Some '''') (Some ''10:00'') = ''NaN'' @ minuteMark \<and>
   ''NaN'' @ minuteMark \<noteq> ''-''"
  by code_simp

text \<open>A missing argument does reach the sentinel, and no input makes the function throw.\<close>

lemma calculateDuration_missing:
  "calculateDuration None a = ''-''" "calculateDuration d None = ''-''"
  by (simp_all add: calculateDuration_def split: option.splits)

lemma set_firstSeen [simp]: "set (firstSeen xs) = set xs"
  by (induction xs) auto

lemma distinct_firstSeen [simp]: "distinct (firstSeen xs)"
  by (induction xs) (auto simp: distinct_removeAll)

lemma firstSeen_snoc:
  "firstSeen (xs @ [x]) = (if x \<in> set xs then firstSeen xs else firstSeen xs @ [x])"
  by (induction xs) auto

lemma parseInt_stripped:
  "parseInt (filter isDigit s) = (if hasDigit s then Num (int (fareAmount s)) else NaN)"
proof -
  have tw: "takeWhile isDigit (filter isDigit s) = filter isDigit s"
    by (rule takeWhile_eq_all_conv[THEN iffD2]) simp
  have ne: "(filter isDigit s = []) = (\<not> hasDigit s)"
    by (auto simp: hasDigit_def list_ex_iff filter_empty_conv)
  show ?thesis
    unfolding parseInt_def Let_def tw fareAmount_def using ne by simp
qed

lemma pricedFares_snoc:
  "pricedFares (rs @ [r]) =
     (if hasDigit (adult_fare r) then pricedFares rs @ [fareAmount (adult_fare r)] else pricedFares rs)"
  by (simp add: pricedFares_def)

lemma expectedMinPrice_Nil: "expectedMinPrice [] = PosInfinity"
  by (simp add: expectedMinPrice_def pricedFares_def)

lemma expectedMinPrice_snoc:
  "expectedMinPrice (rs @ [r]) =
     (let adultFare = parseInt (filter isDigit (adult_fare r))
      in if less_n adultFare (expectedMinPrice rs) then adultFare else expectedMinPrice rs)"
proof (cases "hasDigit (adult_fare r)")
  case False
  then show ?thesis
    by (simp add: parseInt_stripped expectedMinPrice_def pricedFares_snoc)
next
  case True
  show ?thesis
  proof (cases "pricedFares rs = []")
    case True
    with \<open>hasDigit (adult_fare r)\<close> show ?thesis
      by (simp add: parseInt_stripped expectedMinPrice_def pricedFares_snoc)
  next
    case False
    define f where "f = fareAmount (adult_fare r)"
    define m where "m = Min (set (pricedFares rs))"
    have new: "expectedMinPrice (rs @ [r]) = Num (int (min f m))"
      using False True by (simp add: expectedMinPrice_def pricedFares_snoc f_def m_def)
    have old: "expectedMinPrice rs = Num (int m)"
      using False by (simp add: expectedMinPrice_def m_def)
    have fare: "parseInt (filter isDigit (adult_fare r)) = Num (int f)"
      using True by (simp add: parseInt_stripped f_def)
    show ?thesis
      unfolding new old fare Let_def by (simp add: min_def)
  qed
qed

lemma accumulate_newGroup:
  "accumulate (newGroup r) r = groupOfMembers (routeKeyOf r) [r]"
  using expectedMinPrice_snoc[of "[]" r]
  by (simp add: accumulate_def newGroup_def groupOfMembers_def Let_def expectedMinPrice_Nil)

lemma accumulate_groupOfMembers:
  assumes "rs \<noteq> []"
  shows "accumulate (groupOfMembers k rs) r = groupOfMembers k (rs @ [r])"
  using assms expectedMinPrice_snoc[of rs r]
  by (simp add: accumulate_def groupOfMembers_def Let_def firstSeen_snoc)

text \<open>The \<open>get\<close> of \<open>addRoute\<close> always finds its key.\<close>

lemma map_of_mapSet: "map_of (mapSet k v m) k = Some v"
  by (induction m) auto

lemma addRoute_get_defined:
  "map_of (if map_of m k = None then mapSet k v m else m) k \<noteq> None"
  by (simp add: map_of_mapSet)

lemma map_of_keyed:
  "map_of (map (\<lambda>k. (k, f k)) ks) k = (if k \<in> set ks then Some (f k) else None)"
  by (induction ks) auto

lemma mapSet_keyed_new:
  "k \<notin> set ks \<Longrightarrow> mapSet k v (map (\<lambda>k. (k, f k)) ks) = map (\<lambda>k. (k, f k)) ks @ [(k, v)]"
  by (induction ks) auto

lemma mapSet_keyed_old:
  "distinct ks \<Longrightarrow> k \<in> set ks \<Longrightarrow>
   mapSet k v (map (\<lambda>k'. (k', f k')) ks) = map (\<lambda>k'. (k', if k' = k then v else f k')) ks"
  by (induction ks) auto

lemma mapSet_last:
  "k \<notin> fst ` set m \<Longrightarrow> mapSet k v (m @ [(k, w)]) = m @ [(k, v)]"
  by (induction m) auto

lemma members_snoc:
  "members k (routes @ [r]) = (if routeKeyOf r = k then members k routes @ [r] else members k routes)"
  by (simp add: members_def)

lemma members_empty_iff: "(members k routes = []) = (k \<notin> routeKeyOf ` set routes)"
  by (auto simp: members_def filter_empty_conv)

lemma addRoute_groupedMap: "addRoute (groupedMap routes) r = groupedMap (routes @ [r])"
proof -
  define k where "k = routeKeyOf r"
  define ks where "ks = firstSeen (map routeKeyOf routes)"
  define G where "G = (\<lambda>k. groupOfMembers k (members k routes))"
  have m: "groupedMap routes = map (\<lambda>k. (k, G k)) ks"
    by (simp add: groupedMap_def ks_def G_def)
  have ks_set: "set ks = routeKeyOf ` set routes" by (simp add: ks_def)
  have ks_dist: "distinct ks" by (simp add: ks_def)
  show ?thesis
  proof (cases "k \<in> set ks")
    case False
    then have none: "map_of (groupedMap routes) k = None" by (simp add: m map_of_keyed)
    have m1: "mapSet k (newGroup r) (groupedMap routes) = groupedMap routes @ [(k, newGroup r)]"
      using False by (simp add: m mapSet_keyed_new)
    have notin: "k \<notin> fst ` set (groupedMap routes)"
      using False by (auto simp: m)
    have get: "the (map_of (groupedMap routes @ [(k, newGroup r)]) k) = newGroup r"
      using none by (simp add: map_add_def)
    have lhs: "addRoute (groupedMap routes) r = groupedMap routes @ [(k, groupOfMembers k [r])]"
      unfolding addRoute_def Let_def k_def[symmetric]
      using none m1 get mapSet_last[OF notin] accumulate_newGroup[of r]
      by (simp add: k_def)
    have empty: "members k routes = []"
      using False ks_set by (simp add: members_empty_iff)
    have other: "\<And>k'. k' \<in> set ks \<Longrightarrow> members k' (routes @ [r]) = members k' routes"
      using False by (auto simp: members_snoc k_def)
    have keys: "firstSeen (map routeKeyOf (routes @ [r])) = ks @ [k]"
      using False ks_set by (simp add: firstSeen_snoc ks_def k_def)
    have rhs: "groupedMap (routes @ [r]) = groupedMap routes @ [(k, groupOfMembers k [r])]"
      unfolding groupedMap_def keys ks_def[symmetric]
      using other empty by (simp add: members_snoc k_def)
    show ?thesis using lhs rhs by simp
  next
    case True
    then have some: "map_of (groupedMap routes) k = Some (G k)" by (simp add: m map_of_keyed)
    have nonempty: "members k routes \<noteq> []"
      using True ks_set by (simp add: members_empty_iff)
    have acc: "accumulate (G k) r = groupOfMembers k (members k (routes @ [r]))"
      using accumulate_groupOfMembers[OF nonempty, of k r] by (simp add: G_def members_snoc k_def)
    have lhs: "addRoute (groupedMap routes) r =
        map (\<lambda>k'. (k', if k' = k then groupOfMembers k (members k (routes @ [r])) else G k')) ks"
      unfolding addRoute_def Let_def k_def[symmetric]
      using some acc mapSet_keyed_old[OF ks_dist True, of _ G] by (simp add: m)
    have keys: "firstSeen (map routeKeyOf (routes @ [r])) = ks"
      using True ks_set by (simp add: firstSeen_snoc ks_def k_def)
    have rhs: "groupedMap (routes @ [r]) =
        map (\<lambda>k'. (k', if k' = k then groupOfMembers k (members k (routes @ [r])) else G k')) ks"
      unfolding groupedMap_def keys
      by (rule map_cong) (auto simp: G_def members_snoc k_def)
    show ?thesis using lhs rhs by simp
  qed
qed

lemma foldl_addRoute: "foldl addRoute [] routes = groupedMap routes"
proof (induction routes rule: rev_induct)
  case Nil
  show ?case by (simp add: groupedMap_def)
next
  case (snoc r routes)
  then show ?case by (simp add: addRoute_groupedMap)
qed

lemma groupRoutesByPath_eq:
  "groupRoutesByPath routes =
     map (\<lambda>k. sortSchedules (groupOfMembers k (members k routes))) (firstSeen (map routeKeyOf routes))"
  by (simp add: groupRoutesByPath_def foldl_addRoute groupedMap_def Let_def comp_def)

lemma mset_insertBy: "mset (insertBy cmp x xs) = add_mset x (mset xs)"
  by (induction xs) auto

lemma mset_sortBy: "mset (sortBy cmp xs) = mset xs"
  by (induction xs) (auto simp: sortBy_def mset_insertBy)

lemma set_sortBy: "set (sortBy cmp xs) = set xs"
  by (metis mset_sortBy set_mset_mset)

lemma length_sortBy: "length (sortBy cmp xs) = length xs"
  by (metis mset_sortBy size_mset)

lemma sorted_insertBy:
  assumes total: "\<And>a b. cmp a b \<le> 0 \<or> cmp b a \<le> 0"
      and trans: "\<And>a b c. cmp a b \<le> 0 \<Longrightarrow> cmp b c \<le> 0 \<Longrightarrow> cmp a c \<le> 0"
  shows "sorted_wrt (\<lambda>a b. cmp a b \<le> 0) xs \<Longrightarrow> sorted_wrt (\<lambda>a b. cmp a b \<le> 0) (insertBy cmp x xs)"
proof (induction xs)
  case Nil
  show ?case by simp
next
  case (Cons y ys)
  show ?case
  proof (cases "cmp x y \<le> 0")
    case True
    with Cons.prems trans show ?thesis by auto
  next
    case False
    with total have yx: "cmp y x \<le> 0" by blast
    have "set (insertBy cmp x ys) = insert x (set ys)"
      by (metis mset_insertBy set_mset_add_mset_insert set_mset_mset)
    with False yx Cons show ?thesis by auto
  qed
qed

lemma sorted_sortBy:
  assumes total: "\<And>a b. cmp a b \<le> 0 \<or> cmp b a \<le> 0"
      and trans: "\<And>a b c. cmp a b \<le> 0 \<Longrightarrow> cmp b c \<le> 0 \<Longrightarrow> cmp a c \<le> 0"
  shows "sorted_wrt (\<lambda>a b. cmp a b \<le> 0) (sortBy cmp xs)"
proof (induction xs)
  case Nil
  show ?case by (simp add: sortBy_def)
next
  case (Cons x xs)
  have "sortBy cmp (x # xs) = insertBy cmp x (sortBy cmp xs)" by (simp add: sortBy_def)
  with Cons sorted_insertBy[of cmp, OF total trans] show ?case by simp
qed

lemma localeCompare_flip: "localeCompare b a = - localeCompare a b"
  by (induction a b rule: localeCompare.induct) auto

lemma localeCompare_total: "localeCompare a b \<le> 0 \<or> localeCompare b a \<le> 0"
  using localeCompare_flip[of b a] by linarith

lemma localeCompare_Cons_le:
  "(localeCompare (x # xs) (y # ys) \<le> 0) =
     ((of_char x :: nat) < of_char y \<or> ((of_char x :: nat) = of_char y \<and> localeCompare xs ys \<le> 0))"
  by auto

lemma localeCompare_trans:
  "localeCompare a b \<le> 0 \<Longrightarrow> localeCompare b c \<le> 0 \<Longrightarrow> localeCompare a c \<le> 0"
proof (induction a arbitrary: b c)
  case Nil
  then show ?case by (cases c) simp_all
next
  case (Cons x xs)
  from Cons.prems(1) obtain y ys where b: "b = y # ys" by (cases b) auto
  from Cons.prems(2) b obtain z zs where c: "c = z # zs" by (cases c) auto
  from Cons.prems(1) have xy: "(of_char x :: nat) < of_char y \<or>
      ((of_char x :: nat) = of_char y \<and> localeCompare xs ys \<le> 0)"
    unfolding b localeCompare_Cons_le .
  from Cons.prems(2) have yz: "(of_char y :: nat) < of_char z \<or>
      ((of_char y :: nat) = of_char z \<and> localeCompare ys zs \<le> 0)"
    unfolding b c localeCompare_Cons_le .
  have "(of_char x :: nat) < of_char z \<or>
      ((of_char x :: nat) = of_char z \<and> localeCompare xs zs \<le> 0)"
    using xy yz Cons.IH[of ys zs] by force
  then show ?case unfolding c localeCompare_Cons_le .
qed

lemma localeCompare_eq_iff: "(localeCompare a b = 0) = (a = b)"
  by (induction a b rule: localeCompare.induct) auto

lemma compareDeparture_total: "compareDeparture a b \<le> 0 \<or> compareDeparture b a \<le> 0"
  by (simp add: compareDeparture_def Let_def localeCompare_total)

lemma compareDeparture_trans:
  "compareDeparture a b \<le> 0 \<Longrightarrow> compareDeparture b c \<le> 0 \<Longrightarrow> compareDeparture a c \<le> 0"
  unfolding compareDeparture_def Let_def by (rule localeCompare_trans)

lemma sorted_sortSchedules:
  "sorted_wrt (\<lambda>a b. compareDeparture a b \<le> 0) (schedules (sortSchedules g))"
  unfolding sortSchedules_def
  using sorted_sortBy[of compareDeparture, OF compareDeparture_total compareDeparture_trans]
  by simp

lemma group_in_result:
  assumes "g \<in> set (groupRoutesByPath routes)"
  obtains k where "k \<in> routeKeyOf ` set routes"
    and "g = sortSchedules (groupOfMembers k (members k routes))"
    and "members k routes \<noteq> []"
proof -
  from assms obtain k where k: "k \<in> set (firstSeen (map routeKeyOf routes))"
    and g: "g = sortSchedules (groupOfMembers k (members k routes))"
    by (auto simp: groupRoutesByPath_eq)
  from k have "k \<in> routeKeyOf ` set routes" by simp
  moreover from this have "members k routes \<noteq> []" by (simp add: members_empty_iff)
  ultimately show thesis using g that by blast
qed

lemma sortSchedules_fields:
  "routeKey (sortSchedules g) = routeKey g"
  "departure (sortSchedules g) = departure g"
  "arrival (sortSchedules g) = arrival g"
  "companies (sortSchedules g) = companies g"
  "minPrice (sortSchedules g) = minPrice g"
  "totalSchedules (sortSchedules g) = totalSchedules g"
  "schedules (sortSchedules g) = sortBy compareDeparture (schedules g)"
  by (simp_all add: sortSchedules_def)

lemma groupOfMembers_fields:
  "routeKey (groupOfMembers k rs) = k"
  "departure (groupOfMembers k rs) = departure_port (hd rs)"
  "arrival (groupOfMembers k rs) = arrival_port (hd rs)"
  "companies (groupOfMembers k rs) = firstSeen (map company rs)"
  "minPrice (groupOfMembers k rs) = expectedMinPrice rs"
  "totalSchedules (groupOfMembers k rs) = length rs"
  "schedules (groupOfMembers k rs) = rs"
  by (simp_all add: groupOfMembers_def)

lemma sum_list_indicator:
  "distinct ks \<Longrightarrow> a \<in> set ks \<Longrightarrow> (\<Sum>k\<leftarrow>ks. if a = k then 1 else 0) = (1::nat)"
proof (induction ks)
  case Nil
  then show ?case by simp
next
  case (Cons k ks)
  show ?case
  proof (cases "a = k")
    case True
    with Cons.prems have "a \<notin> set ks" by simp
    then have "(\<Sum>k\<leftarrow>ks. if a = k then 1 else 0) = (0::nat)"
      by (induction ks) auto
    with True show ?thesis by simp
  next
    case False
    with Cons show ?thesis by simp
  qed
qed

lemma sum_length_members:
  assumes "distinct ks" and "routeKeyOf ` set routes \<subseteq> set ks"
  shows "(\<Sum>k\<leftarrow>ks. length (members k routes)) = length routes"
  using assms(2)
proof (induction routes)
  case Nil
  show ?case by (simp add: members_def)
next
  case (Cons r rs)
  have "(\<Sum>k\<leftarrow>ks. length (members k (r # rs))) =
      (\<Sum>k\<leftarrow>ks. (if routeKeyOf r = k then 1 else 0) + length (members k rs))"
    by (rule arg_cong[where f = sum_list], rule map_cong) (auto simp: members_def)
  also have "\<dots> = (\<Sum>k\<leftarrow>ks. if routeKeyOf r = k then 1 else 0) + (\<Sum>k\<leftarrow>ks. length (members k rs))"
    by (simp add: sum_list_addf)
  also have "\<dots> = 1 + length rs"
    using Cons sum_list_indicator[OF assms(1), of "routeKeyOf r"] by simp
  finally show ?case by simp
qed

text \<open>
  Claim C7. For every input list, the schedule counts of the groups returned by
  \<open>groupRoutesByPath\<close> add up to the number of input rows, whether a group's count is
  read from \<open>totalSchedules\<close> or taken as the length of its schedule list.
\<close>
theorem schedule_counts_sum_to_input_length:
  "sum_list (map totalSchedules (groupRoutesByPath routes)) = length routes \<and>
   sum_list (map (\<lambda>g. length (schedules g)) (groupRoutesByPath routes)) = length routes"
proof -
  let ?ks = "firstSeen (map routeKeyOf routes)"
  have total: "(\<Sum>k\<leftarrow>?ks. length (members k routes)) = length routes"
    by (rule sum_length_members) simp_all
  have "map totalSchedules (groupRoutesByPath routes) = map (\<lambda>k. length (members k routes)) ?ks"
    by (simp add: groupRoutesByPath_eq comp_def sortSchedules_fields groupOfMembers_fields)
  moreover have "map (\<lambda>g. length (schedules g)) (groupRoutesByPath routes) =
      map (\<lambda>k. length (members k routes)) ?ks"
    by (simp add: groupRoutesByPath_eq comp_def sortSchedules_fields groupOfMembers_fields length_sortBy)
  ultimately show ?thesis using total by simp
qed

text \<open>
  Claim C10. In every group returned by \<open>groupRoutesByPath\<close>, \<open>totalSchedules\<close> is the
  length of the schedule list, and the company list has no duplicates and is exactly the
  distinct companies of the group's members in the order in which the input first shows
  them.
\<close>
theorem group_counts_and_companies:
  assumes "g \<in> set (groupRoutesByPath routes)"
  shows "totalSchedules g = length (schedules g) \<and>
         distinct (companies g) \<and>
         set (companies g) = company ` set (schedules g) \<and>
         companies g = firstSeen (map company (members (routeKey g) routes))"
proof -
  from assms obtain k where g: "g = sortSchedules (groupOfMembers k (members k routes))"
    by (rule group_in_result)
  show ?thesis
    unfolding g
    by (simp add: sortSchedules_fields groupOfMembers_fields length_sortBy set_sortBy)
qed

lemma expectedMinPrice_set:
  assumes "set rs = set rs'"
  shows "expectedMinPrice rs = expectedMinPrice rs'"
proof -
  have "set (pricedFares rs) = set (pricedFares rs')"
    using assms by (simp add: pricedFares_def)
  moreover from this have "(pricedFares rs = []) = (pricedFares rs' = [])"
    by (metis set_empty)
  ultimately show ?thesis by (simp add: expectedMinPrice_def)
qed

lemma fares_bounded:
  assumes "map f rs = ys" and "list_all (\<lambda>n. n < b) ys"
  shows "list_all (\<lambda>r. f r < b) rs"
  using assms by (auto simp: list_all_iff)

text \<open>
  Claim C3. In every group returned by \<open>groupRoutesByPath\<close>, \<open>minPrice\<close> is the minimum
  of the digit-stripped adult fares of those members whose fare has a digit; when no
  member has such a fare it is the sentinel \<open>Infinity\<close> the group starts with. A fare
  without digits changes nothing else: the group still holds every input row of its key.
  The fares of the group are taken below \<open>2 ^ 53\<close>, where the number that \<open>parseInt\<close>
  returns is the integer the digits write.
\<close>

theorem minPrice_is_min_of_priced_fares:
  assumes "g \<in> set (groupRoutesByPath routes)"
      and "\<forall>r \<in> set (schedules g). fareAmount (adult_fare r) < 2 ^ 53"
  shows "(pricedFares (schedules g) = [] \<longrightarrow> minPrice g = PosInfinity) \<and>
         (pricedFares (schedules g) \<noteq> [] \<longrightarrow>
            minPrice g = Num (int (Min (set (pricedFares (schedules g)))))) \<and>
         set (schedules g) = {r \<in> set routes. routeKeyOf r = routeKey g}"
proof -
  from assms(1) obtain k where g: "g = sortSchedules (groupOfMembers k (members k routes))"
    by (rule group_in_result)
  have s: "set (schedules g) = set (members k routes)"
    by (simp add: g sortSchedules_fields groupOfMembers_fields set_sortBy)
  have "minPrice g = expectedMinPrice (members k routes)"
    by (simp add: g sortSchedules_fields groupOfMembers_fields)
  also have "\<dots> = expectedMinPrice (schedules g)"
    using s by (intro expectedMinPrice_set) simp
  finally have m: "minPrice g = expectedMinPrice (schedules g)" .
  have k: "routeKey g = k" by (simp add: g sortSchedules_fields groupOfMembers_fields)
  show ?thesis
    using m s k by (auto simp: expectedMinPrice_def members_def)
qed

lemma some_iff: "some p xs = (\<exists>x \<in> set xs. p x)"
  by (induction xs) auto

text \<open>
  Claim C9. The date-limited flag of a group is set exactly when some member schedule has
  the reserved marker as its \<open>operating_days\<close>. It only marks: for a group that
  \<open>groupRoutesByPath\<close> builds, the flag is set exactly when an input row of the group's
  key has the marker, and the expanded table renders every input row of that key, as
  often as the input has it, marked or not; collapsed, the preview is the first three
  schedules whatever the flag.
\<close>

theorem limited_flag_marks_and_keeps_rows:
  "isLimitedPeriod routeGroup =
     (\<exists>schedule \<in> set (schedules routeGroup). operating_days schedule = limitedPeriodMarker) \<and>
   (g \<in> set (groupRoutesByPath routes) \<longrightarrow>
      isLimitedPeriod g =
        (\<exists>r \<in> set routes. routeKeyOf r = routeKey g \<and> operating_days r = limitedPeriodMarker) \<and>
      mset (renderedSchedules g True) = mset (members (routeKey g) routes) \<and>
      length (renderedSchedules g True) = totalSchedules g \<and>
      renderedSchedules g False = take 3 (renderedSchedules g True))"
proof -
  have flag: "isLimitedPeriod rg =
      (\<exists>schedule \<in> set (schedules rg). operating_days schedule = limitedPeriodMarker)" for rg
    by (simp add: isLimitedPeriod_def some_iff)
  have built: "isLimitedPeriod g =
        (\<exists>r \<in> set routes. routeKeyOf r = routeKey g \<and> operating_days r = limitedPeriodMarker) \<and>
      mset (renderedSchedules g True) = mset (members (routeKey g) routes) \<and>
      length (renderedSchedules g True) = totalSchedules g \<and>
      renderedSchedules g False = take 3 (renderedSchedules g True)"
    if mem: "g \<in> set (groupRoutesByPath routes)"
  proof -
    from mem obtain k where g: "g = sortSchedules (groupOfMembers k (members k routes))"
      by (rule group_in_result)
    have k: "routeKey g = k" by (simp add: g sortSchedules_fields groupOfMembers_fields)
    have tab: "renderedSchedules g True = schedules g" by (simp add: renderedSchedules_def)
    have ms: "mset (schedules g) = mset (members k routes)"
      by (simp add: g sortSchedules_fields groupOfMembers_fields mset_sortBy)
    then have st: "set (schedules g) = {r \<in> set routes. routeKeyOf r = k}"
      using mset_eq_setD[OF ms] by (simp add: members_def)
    have len: "length (schedules g) = totalSchedules g"
      by (simp add: g sortSchedules_fields groupOfMembers_fields length_sortBy)
    have "isLimitedPeriod g =
        (\<exists>r \<in> set routes. routeKeyOf r = k \<and> operating_days r = limitedPeriodMarker)"
      unfolding flag st by blast
    then show ?thesis
      using ms len by (simp add: k tab) (simp add: renderedSchedules_def)
  qed
  show ?thesis using flag built by blast
qed

lemma wellFormedTime_shape:
  assumes "wellFormedTime s"
  obtains a b c d where "s = [a, b, CHR '':'', c, d]"
    and "isDigit a" "isDigit b" "isDigit c" "isDigit d"
    and "10 * digitVal c + digitVal d < 60"
proof -
  from assms have len: "length s = 5" by (simp add: wellFormedTime_def)
  then obtain a b e c d where s: "s = [a, b, e, c, d]"
    by (auto simp: eval_nat_numeral length_Suc_conv)
  from assms have "isDigit a" "isDigit b" "e = CHR '':''" "isDigit c" "isDigit d"
    "10 * digitVal c + digitVal d < 60"
    unfolding s by (simp_all add: wellFormedTime_def eval_nat_numeral digitsValue_def)
  with s that show thesis by blast
qed

lemma clockMinutes_shape:
  assumes "isDigit a" "isDigit b"
  shows "clockMinutes [a, b, CHR '':'', c, d] =
     600 * digitVal a + 60 * digitVal b + 10 * digitVal c + digitVal d"
proof -
  have "a \<noteq> CHR '':''" "b \<noteq> CHR '':''"
    using assms not_isDigit_colon by auto
  then show ?thesis by (simp add: clockMinutes_def digitsValue_def)
qed

lemma departure_shape:
  assumes "isDigit a" "isDigit b"
  shows "remove1 CHR '':'' [a, b, CHR '':'', c, d] = [a, b, c, d]"
proof -
  have "a \<noteq> CHR '':''" "b \<noteq> CHR '':''"
    using assms not_isDigit_colon by auto
  then show ?thesis by simp
qed

lemma of_char_digit: "isDigit c \<Longrightarrow> (of_char c :: nat) = 48 + digitVal c"
  by (simp add: isDigit_def digitVal_def)

lemma lex4:
  fixes a b c d a' b' c' d' :: nat
  assumes "b < 10" "d < 10" "10 * c + d < 60" "b' < 10" "d' < 10" "10 * c' + d' < 60"
  shows "(a < a' \<or> a = a' \<and> (b < b' \<or> b = b' \<and> (c < c' \<or> c = c' \<and> d \<le> d'))) =
         (600 * a + 60 * b + 10 * c + d \<le> 600 * a' + 60 * b' + 10 * c' + d')"
  using assms by arith

lemma localeCompare_Nil_le: "(localeCompare [] [] \<le> 0) = True"
  by simp

lemma wellFormed_order:
  assumes "wellFormedTime s" "wellFormedTime t"
  shows "(localeCompare (remove1 CHR '':'' s) (remove1 CHR '':'' t) \<le> 0) =
         (clockMinutes s \<le> clockMinutes t)"
proof -
  from assms(1) obtain a b c d where s: "s = [a, b, CHR '':'', c, d]"
    and ds: "isDigit a" "isDigit b" "isDigit c" "isDigit d"
    and ms: "10 * digitVal c + digitVal d < 60"
    by (rule wellFormedTime_shape)
  from assms(2) obtain a' b' c' d' where t: "t = [a', b', CHR '':'', c', d']"
    and dt: "isDigit a'" "isDigit b'" "isDigit c'" "isDigit d'"
    and mt: "10 * digitVal c' + digitVal d' < 60"
    by (rule wellFormedTime_shape)
  have lc: "(localeCompare [a, b, c, d] [a', b', c', d'] \<le> 0) =
      (digitVal a < digitVal a' \<or> digitVal a = digitVal a' \<and>
        (digitVal b < digitVal b' \<or> digitVal b = digitVal b' \<and>
          (digitVal c < digitVal c' \<or> digitVal c = digitVal c' \<and> digitVal d \<le> digitVal d')))"
    unfolding localeCompare_Cons_le localeCompare_Nil_le
    using ds dt by (simp add: of_char_digit) linarith
  show ?thesis
    unfolding s t departure_shape[OF ds(1,2)] departure_shape[OF dt(1,2)]
      clockMinutes_shape[OF ds(1,2)] clockMinutes_shape[OF dt(1,2)] lc
    using ms mt ds dt by (intro lex4) (simp_all add: digitVal_less)
qed

text \<open>
  Claim C4 asks for every group's schedule list in the order of the time of day, also
  when a stored departure time has a single-digit hour. The comparator compares the
  times as strings once the colon is removed, and no hour is padded: of two sailings of
  one route at 9:05 and 10:00 the later one is listed first, since \<open>905\<close> follows
  \<open>1000\<close> as a string.
\<close>

theorem single_digit_hour_out_of_order:
  "map departure_time (schedules (hd (groupRoutesByPath
     [sampleRoute ''Takamatsu'' ''Naoshima'' ''9:05'' ''Shikoku Kisen'' yenFare,
      sampleRoute ''Takamatsu'' ''Naoshima'' ''10:00'' ''Shikoku Kisen'' yenFare]))) =
     [''10:00'', ''9:05''] \<and>
   clockMinutes ''10:00'' = 600 \<and> clockMinutes ''9:05'' = 545 \<and>
   \<not> sortedByClock (schedules (hd (groupRoutesByPath
     [sampleRoute ''Takamatsu'' ''Naoshima'' ''9:05'' ''Shikoku Kisen'' yenFare,
      sampleRoute ''Takamatsu'' ''Naoshima'' ''10:00'' ''Shikoku Kisen'' yenFare])))"
  by code_simp

text \<open>
  When the departure times of a group are zero-padded HH:MM, its schedule list is in
  the order of the minute of the day.
\<close>

lemma schedules_sorted_by_clock_when_zero_padded:
  assumes "g \<in> set (groupRoutesByPath routes)"
      and wf: "\<forall>r \<in> set (schedules g). wellFormedTime (departure_time r)"
  shows "sortedByClock (schedules g)"
proof -
  from assms(1) obtain k where g: "g = sortSchedules (groupOfMembers k (members k routes))"
    by (rule group_in_result)
  have key: "sorted_wrt (\<lambda>a b. compareDeparture a b \<le> 0) (schedules g)"
    unfolding g by (rule sorted_sortSchedules)
  show ?thesis
    unfolding sortedByClock_def
  proof (rule sorted_wrt_mono_rel[OF _ key])
    fix a b
    assume "a \<in> set (schedules g)" "b \<in> set (schedules g)"
      and "compareDeparture a b \<le> 0"
    then show "clockMinutes (departure_time a) \<le> clockMinutes (departure_time b)"
      using wf wellFormed_order[of "departure_time a" "departure_time b"]
      by (simp add: compareDeparture_def Let_def)
  qed
qed

lemma wellFormed_key_inj:
  assumes "wellFormedTime s" and "wellFormedTime t"
      and "remove1 CHR '':'' s = remove1 CHR '':'' t"
  shows "s = t"
proof -
  from assms(1) obtain a b c d where s: "s = [a, b, CHR '':'', c, d]"
    and ds: "isDigit a" "isDigit b"
    by (rule wellFormedTime_shape)
  from assms(2) obtain a' b' c' d' where t: "t = [a', b', CHR '':'', c', d']"
    and dt: "isDigit a'" "isDigit b'"
    by (rule wellFormedTime_shape)
  from assms(3) have "[a, b, c, d] = [a', b', c', d']"
    unfolding s t departure_shape[OF ds] departure_shape[OF dt] .
  then show ?thesis by (simp add: s t)
qed

lemma sorted_wrt_unique:
  assumes "sorted_wrt R xs" and "sorted_wrt R ys" and "mset xs = mset ys"
      and antisym: "\<And>a b. a \<in> set xs \<Longrightarrow> b \<in> set xs \<Longrightarrow> R a b \<Longrightarrow> R b a \<Longrightarrow> a = b"
  shows "xs = ys"
  using assms
proof (induction xs arbitrary: ys)
  case Nil
  then show ?case by simp
next
  case (Cons x xs)
  from Cons.prems(3) obtain y ys' where ys: "ys = y # ys'"
    by (cases ys) auto
  have sets: "set (x # xs) = set (y # ys')"
    using Cons.prems(3) ys by (metis mset_eq_setD)
  have "x = y"
  proof (rule ccontr)
    assume ne: "x \<noteq> y"
    with sets have "x \<in> set ys'" "y \<in> set xs" by auto
    then have "R y x" "R x y"
      using Cons.prems(1,2) ys by auto
    with Cons.prems(4)[of x y] \<open>y \<in> set xs\<close> ne show False by auto
  qed
  moreover have "xs = ys'"
  proof (rule Cons.IH)
    show "sorted_wrt R xs" using Cons.prems(1) by simp
    show "sorted_wrt R ys'" using Cons.prems(2) ys by simp
    show "mset xs = mset ys'" using Cons.prems(3) ys \<open>x = y\<close> by simp
    show "\<And>a b. a \<in> set xs \<Longrightarrow> b \<in> set xs \<Longrightarrow> R a b \<Longrightarrow> R b a \<Longrightarrow> a = b"
      using Cons.prems(4) by simp
  qed
  ultimately show ?case using ys by simp
qed

lemma mset_members:
  "mset routes' = mset routes \<Longrightarrow> mset (members k routes') = mset (members k routes)"
  by (simp add: members_def mset_filter)

lemma routeKeys_of_result:
  "map routeKey (groupRoutesByPath routes) = firstSeen (map routeKeyOf routes)"
  by (simp add: groupRoutesByPath_eq comp_def sortSchedules_fields groupOfMembers_fields)

lemma group_by_key:
  assumes "g \<in> set (groupRoutesByPath routes)"
  shows "g = sortSchedules (groupOfMembers (routeKey g) (members (routeKey g) routes))"
proof -
  from assms obtain k where g: "g = sortSchedules (groupOfMembers k (members k routes))"
    by (rule group_in_result)
  then have "routeKey g = k" by (simp add: sortSchedules_fields groupOfMembers_fields)
  with g show ?thesis by simp
qed

text \<open>
  Claim C6, as the code has it. For a permutation of the input the same route keys
  appear, each once, and the two groups of one key have the same \<open>totalSchedules\<close>,
  company lists that are permutations of one another and schedule lists that are
  permutations of one another; the same \<open>minPrice\<close>, for fares below \<open>2 ^ 53\<close>; and,
  when the departure times of the group are zero-padded HH:MM, schedule lists that are
  both in the order of the time of day and that are equal when no two different members
  leave at the same time.
\<close>

theorem grouping_under_permutation:
  assumes "mset routes' = mset routes"
      and "g \<in> set (groupRoutesByPath routes)"
      and "g' \<in> set (groupRoutesByPath routes')"
      and "routeKey g' = routeKey g"
  shows "set (map routeKey (groupRoutesByPath routes')) = set (map routeKey (groupRoutesByPath routes)) \<and>
         distinct (map routeKey (groupRoutesByPath routes)) \<and>
         distinct (map routeKey (groupRoutesByPath routes')) \<and>
         totalSchedules g' = totalSchedules g \<and>
         mset (companies g') = mset (companies g) \<and>
         mset (schedules g') = mset (schedules g) \<and>
         ((\<forall>r \<in> set (schedules g). fareAmount (adult_fare r) < 2 ^ 53) \<longrightarrow>
            minPrice g' = minPrice g) \<and>
         ((\<forall>r \<in> set (schedules g). wellFormedTime (departure_time r)) \<longrightarrow>
            sortedByClock (schedules g) \<and>
            sortedByClock (schedules g') \<and>
            (inj_on departure_time (set (schedules g)) \<longrightarrow> schedules g' = schedules g))"
proof -
  define k where "k = routeKey g"
  have g: "g = sortSchedules (groupOfMembers k (members k routes))"
    unfolding k_def using assms(2) by (rule group_by_key)
  have g': "g' = sortSchedules (groupOfMembers k (members k routes'))"
    unfolding k_def assms(4)[symmetric] using assms(3) by (rule group_by_key)
  have ms: "mset (members k routes') = mset (members k routes)"
    using assms(1) by (rule mset_members)
  then have st: "set (members k routes') = set (members k routes)"
    by (rule mset_eq_setD)
  have keys: "set (map routeKey (groupRoutesByPath routes')) = set (map routeKey (groupRoutesByPath routes))"
    using mset_eq_setD[OF assms(1)] by (simp add: routeKeys_of_result)
  have dist: "distinct (map routeKey (groupRoutesByPath routes))"
    "distinct (map routeKey (groupRoutesByPath routes'))"
    by (simp_all add: routeKeys_of_result)
  have price: "minPrice g' = minPrice g"
    using expectedMinPrice_set[OF st] by (simp add: g g' sortSchedules_fields groupOfMembers_fields)
  have count: "totalSchedules g' = totalSchedules g"
    using ms by (simp add: g g' sortSchedules_fields groupOfMembers_fields) (metis size_mset)
  have "set (companies g') = set (companies g)"
    using st by (simp add: g g' sortSchedules_fields groupOfMembers_fields)
  moreover have "distinct (companies g')" "distinct (companies g)"
    by (simp_all add: g g' sortSchedules_fields groupOfMembers_fields)
  ultimately have comp: "mset (companies g') = mset (companies g)"
    by (simp add: set_eq_iff_mset_eq_distinct)
  have sched: "mset (schedules g') = mset (schedules g)"
    using ms by (simp add: g g' sortSchedules_fields groupOfMembers_fields mset_sortBy)
  have padded: "sortedByClock (schedules g) \<and> sortedByClock (schedules g') \<and>
      (inj_on departure_time (set (schedules g)) \<longrightarrow> schedules g' = schedules g)"
    if wf: "\<forall>r \<in> set (schedules g). wellFormedTime (departure_time r)"
  proof -
    have wf': "\<forall>r \<in> set (schedules g'). wellFormedTime (departure_time r)"
      using wf mset_eq_setD[OF sched] by simp
    have c: "sortedByClock (schedules g)"
      using assms(2) wf by (rule schedules_sorted_by_clock_when_zero_padded)
    have c': "sortedByClock (schedules g')"
      using assms(3) wf' by (rule schedules_sorted_by_clock_when_zero_padded)
    have same: "schedules g' = schedules g" if inj: "inj_on departure_time (set (schedules g))"
    proof (rule sorted_wrt_unique[symmetric])
      show "sorted_wrt (\<lambda>a b. compareDeparture a b \<le> 0) (schedules g)"
        unfolding g by (rule sorted_sortSchedules)
      show "sorted_wrt (\<lambda>a b. compareDeparture a b \<le> 0) (schedules g')"
        unfolding g' by (rule sorted_sortSchedules)
      show "mset (schedules g) = mset (schedules g')" using sched by simp
    next
      fix a b
      assume a: "a \<in> set (schedules g)" and b: "b \<in> set (schedules g)"
        and ab: "compareDeparture a b \<le> 0" and ba: "compareDeparture b a \<le> 0"
      let ?ka = "remove1 CHR '':'' (departure_time a)"
      let ?kb = "remove1 CHR '':'' (departure_time b)"
      from ab ba have "localeCompare ?ka ?kb \<le> 0" "localeCompare ?kb ?ka \<le> 0"
        by (simp_all add: compareDeparture_def Let_def)
      with localeCompare_flip[of ?kb ?ka] have "localeCompare ?ka ?kb = 0" by linarith
      then have "?ka = ?kb" by (simp add: localeCompare_eq_iff)
      then have "departure_time a = departure_time b"
        using wf a b by (auto intro: wellFormed_key_inj)
      with inj a b show "a = b" by (auto dest: inj_onD)
    qed
    show ?thesis using c c' same by blast
  qed
  have price': "(\<forall>r \<in> set (schedules g). fareAmount (adult_fare r) < 2 ^ 53) \<longrightarrow>
      minPrice g' = minPrice g"
    using price by (rule impI[OF _])
  have padded': "(\<forall>r \<in> set (schedules g). wellFormedTime (departure_time r)) \<longrightarrow>
      sortedByClock (schedules g) \<and>
      sortedByClock (schedules g') \<and>
      (inj_on departure_time (set (schedules g)) \<longrightarrow> schedules g' = schedules g)"
    by (rule impI) (rule padded)
  show ?thesis
    by (intro conjI) (fact keys dist count comp sched price' padded')+
qed

text \<open>The scenario rows and their reversal.\<close>

theorem grouping_under_permutation_witness:
  "mset (rev scenarioRows) = mset scenarioRows \<and>
   hd (groupRoutesByPath scenarioRows) \<in> set (groupRoutesByPath scenarioRows) \<and>
   hd (groupRoutesByPath (rev scenarioRows)) \<in> set (groupRoutesByPath (rev scenarioRows)) \<and>
   routeKey (hd (groupRoutesByPath (rev scenarioRows))) = routeKey (hd (groupRoutesByPath scenarioRows)) \<and>
   list_all (\<lambda>r. fareAmount (adult_fare r) < 2 ^ 53) (schedules (hd (groupRoutesByPath scenarioRows))) \<and>
   list_all (\<lambda>r. wellFormedTime (departure_time r)) (schedules (hd (groupRoutesByPath scenarioRows))) \<and>
   inj_on departure_time (set (schedules (hd (groupRoutesByPath scenarioRows)))) \<and>
   map departure_time (schedules (hd (groupRoutesByPath scenarioRows))) = [''08:00'', ''23:50''] \<and>
   schedules (hd (groupRoutesByPath (rev scenarioRows))) = schedules (hd (groupRoutesByPath scenarioRows)) \<and>
   sortedByClock (schedules (hd (groupRoutesByPath (rev scenarioRows)))) \<and>
   minPrice (hd (groupRoutesByPath (rev scenarioRows))) = minPrice (hd (groupRoutesByPath scenarioRows))"
proof -
  have p: "mset (rev scenarioRows) = mset scenarioRows" by simp
  have m: "hd (groupRoutesByPath scenarioRows) \<in> set (groupRoutesByPath scenarioRows)"
    by code_simp
  have m': "hd (groupRoutesByPath (rev scenarioRows)) \<in> set (groupRoutesByPath (rev scenarioRows))"
    by code_simp
  have k: "routeKey (hd (groupRoutesByPath (rev scenarioRows))) = routeKey (hd (groupRoutesByPath scenarioRows))"
    by code_simp
  have f: "map (\<lambda>r. fareAmount (adult_fare r)) (schedules (hd (groupRoutesByPath scenarioRows))) = [1220, 1220]"
    by code_simp
  have b: "list_all (\<lambda>r. fareAmount (adult_fare r) < 2 ^ 53) (schedules (hd (groupRoutesByPath scenarioRows)))"
    by (rule fares_bounded[OF f]) simp
  then have b': "\<forall>r \<in> set (schedules (hd (groupRoutesByPath scenarioRows))). fareAmount (adult_fare r) < 2 ^ 53"
    by (simp add: list_all_iff)
  have w: "list_all (\<lambda>r. wellFormedTime (departure_time r)) (schedules (hd (groupRoutesByPath scenarioRows)))"
    by code_simp
  then have w': "\<forall>r \<in> set (schedules (hd (groupRoutesByPath scenarioRows))). wellFormedTime (departure_time r)"
    by (simp add: list_all_iff)
  have s: "map departure_time (schedules (hd (groupRoutesByPath scenarioRows))) = [''08:00'', ''23:50'']"
    by code_simp
  have "distinct (map departure_time (schedules (hd (groupRoutesByPath scenarioRows))))"
    unfolding s by simp
  then have i: "inj_on departure_time (set (schedules (hd (groupRoutesByPath scenarioRows))))"
    by (simp add: distinct_map)
  show ?thesis
    using grouping_under_permutation[OF p m m' k] p m m' k b b' w w' s i by blast
qed

text \<open>
  Groups are not identical under permutation: two sailings of one route at the same time
  by different companies keep their input order, and so do the company names.
\<close>
theorem permuted_input_counterexample:
  "mset (rev sameTimeRows) = mset sameTimeRows \<and>
   map routeKey (groupRoutesByPath sameTimeRows) = [''Takamatsu-Naoshima''] \<and>
   map routeKey (groupRoutesByPath (rev sameTimeRows)) = [''Takamatsu-Naoshima''] \<and>
   map companies (groupRoutesByPath sameTimeRows) = [[''Shikoku Kisen'', ''Jumbo Ferry'']] \<and>
   map companies (groupRoutesByPath (rev sameTimeRows)) = [[''Jumbo Ferry'', ''Shikoku Kisen'']] \<and>
   map schedules (groupRoutesByPath sameTimeRows) = [sameTimeRows] \<and>
   map schedules (groupRoutesByPath (rev sameTimeRows)) = [rev sameTimeRows] \<and>
   rev sameTimeRows \<noteq> sameTimeRows"
proof -
  have "mset (rev sameTimeRows) = mset sameTimeRows" by simp
  moreover have "map routeKey (groupRoutesByPath sameTimeRows) = [''Takamatsu-Naoshima'']"
    by code_simp
  moreover have "map routeKey (groupRoutesByPath (rev sameTimeRows)) = [''Takamatsu-Naoshima'']"
    by code_simp
  moreover have "map companies (groupRoutesByPath sameTimeRows) = [[''Shikoku Kisen'', ''Jumbo Ferry'']]"
    by code_simp
  moreover have "map companies (groupRoutesByPath (rev sameTimeRows)) = [[''Jumbo Ferry'', ''Shikoku Kisen'']]"
    by code_simp
  moreover have "map schedules (groupRoutesByPath sameTimeRows) = [sameTimeRows]"
    by code_simp
  moreover have "map schedules (groupRoutesByPath (rev sameTimeRows)) = [rev sameTimeRows]"
    by code_simp
  moreover have "rev sameTimeRows \<noteq> sameTimeRows"
    by code_simp
  ultimately show ?thesis by blast
qed

text \<open>
  Claim C1 asks for one group per distinct pair of departure and arrival port. The key
  joins the two names with a hyphen, so two different pairs whose joined names coincide
  fall into one group, which carries the ports of the first row only.
\<close>
theorem hyphenated_ports_merge_groups:
  "map routePair hyphenRows = [(''Uno-Ko'', ''Miyanoura''), (''Uno'', ''Ko-Miyanoura'')] \<and>
   map routeKey (groupRoutesByPath hyphenRows) = [''Uno-Ko-Miyanoura''] \<and>
   map departure (groupRoutesByPath hyphenRows) = [''Uno-Ko''] \<and>
   map arrival (groupRoutesByPath hyphenRows) = [''Miyanoura''] \<and>
   map schedules (groupRoutesByPath hyphenRows) = [hyphenRows]"
proof -
  have "map routePair hyphenRows = [(''Uno-Ko'', ''Miyanoura''), (''Uno'', ''Ko-Miyanoura'')]"
    by code_simp
  moreover have "map routeKey (groupRoutesByPath hyphenRows) = [''Uno-Ko-Miyanoura'']"
    by code_simp
  moreover have "map departure (groupRoutesByPath hyphenRows) = [''Uno-Ko'']"
    by code_simp
  moreover have "map arrival (groupRoutesByPath hyphenRows) = [''Miyanoura'']"
    by code_simp
  moreover have "map schedules (groupRoutesByPath hyphenRows) = [hyphenRows]"
    by code_simp
  ultimately show ?thesis by blast
qed

text \<open>
  The scenario: two fares of 1,220 yen give a minimum of 1220; the route whose only fare
  has no digit keeps the sentinel.
\<close>

theorem minPrice_is_min_of_priced_fares_witness:
  "hd (groupRoutesByPath scenarioRows) \<in> set (groupRoutesByPath scenarioRows) \<and>
   list_all (\<lambda>r. fareAmount (adult_fare r) < 2 ^ 53) (schedules (hd (groupRoutesByPath scenarioRows))) \<and>
   pricedFares (schedules (hd (groupRoutesByPath scenarioRows))) = [1220, 1220] \<and>
   minPrice (hd (groupRoutesByPath scenarioRows)) = Num 1220 \<and>
   last (groupRoutesByPath scenarioRows) \<in> set (groupRoutesByPath scenarioRows) \<and>
   list_all (\<lambda>r. fareAmount (adult_fare r) < 2 ^ 53) (schedules (last (groupRoutesByPath scenarioRows))) \<and>
   pricedFares (schedules (last (groupRoutesByPath scenarioRows))) = [] \<and>
   minPrice (last (groupRoutesByPath scenarioRows)) = PosInfinity"
proof -
  have m1: "hd (groupRoutesByPath scenarioRows) \<in> set (groupRoutesByPath scenarioRows)"
    by code_simp
  have f1: "map (\<lambda>r. fareAmount (adult_fare r)) (schedules (hd (groupRoutesByPath scenarioRows))) = [1220, 1220]"
    by code_simp
  have b1: "list_all (\<lambda>r. fareAmount (adult_fare r) < 2 ^ 53) (schedules (hd (groupRoutesByPath scenarioRows)))"
    by (rule fares_bounded[OF f1]) simp
  then have b1': "\<forall>r \<in> set (schedules (hd (groupRoutesByPath scenarioRows))). fareAmount (adult_fare r) < 2 ^ 53"
    by (simp add: list_all_iff)
  have p1: "pricedFares (schedules (hd (groupRoutesByPath scenarioRows))) = [1220, 1220]"
    by code_simp
  have m2: "last (groupRoutesByPath scenarioRows) \<in> set (groupRoutesByPath scenarioRows)"
    by code_simp
  have f2: "map (\<lambda>r. fareAmount (adult_fare r)) (schedules (last (groupRoutesByPath scenarioRows))) = [0]"
    by code_simp
  have b2: "list_all (\<lambda>r. fareAmount (adult_fare r) < 2 ^ 53) (schedules (last (groupRoutesByPath scenarioRows)))"
    by (rule fares_bounded[OF f2]) simp
  then have b2': "\<forall>r \<in> set (schedules (last (groupRoutesByPath scenarioRows))). fareAmount (adult_fare r) < 2 ^ 53"
    by (simp add: list_all_iff)
  have p2: "pricedFares (schedules (last (groupRoutesByPath scenarioRows))) = []"
    by code_simp
  have "minPrice (hd (groupRoutesByPath scenarioRows)) = Num 1220"
    using minPrice_is_min_of_priced_fares[OF m1 b1'] p1 by simp
  moreover have "minPrice (last (groupRoutesByPath scenarioRows)) = PosInfinity"
    using minPrice_is_min_of_priced_fares[OF m2 b2'] p2 by simp
  ultimately show ?thesis using m1 b1 p1 m2 b2 p2 by blast
qed

text \<open>The Takamatsu to Naoshima group of the scenario: two schedules, one company.\<close>

theorem group_counts_and_companies_witness:
  "hd (groupRoutesByPath scenarioRows) \<in> set (groupRoutesByPath scenarioRows) \<and>
   length (schedules (hd (groupRoutesByPath scenarioRows))) = 2 \<and>
   totalSchedules (hd (groupRoutesByPath scenarioRows)) = 2 \<and>
   companies (hd (groupRoutesByPath scenarioRows)) = [''Shikoku Kisen'']"
proof -
  have m: "hd (groupRoutesByPath scenarioRows) \<in> set (groupRoutesByPath scenarioRows)"
    by code_simp
  have l: "length (schedules (hd (groupRoutesByPath scenarioRows))) = 2"
    by code_simp
  have c: "firstSeen (map company (members (routeKey (hd (groupRoutesByPath scenarioRows))) scenarioRows)) =
      [''Shikoku Kisen'']"
    by code_simp
  show ?thesis
    using group_counts_and_companies[OF m] m l c by simp
qed

text \<open>
  Of the two groups built from five rows, the one with the date-limited 10:00 sailing is
  flagged and renders its four rows, that sailing among them; the other is not flagged.
\<close>

theorem limited_flag_marks_and_keeps_rows_witness:
  "hd (groupRoutesByPath limitedRows) \<in> set (groupRoutesByPath limitedRows) \<and>
   isLimitedPeriod (hd (groupRoutesByPath limitedRows)) \<and>
   map departure_time (renderedSchedules (hd (groupRoutesByPath limitedRows)) True) =
     [''08:00'', ''10:00'', ''12:00'', ''14:00''] \<and>
   length (renderedSchedules (hd (groupRoutesByPath limitedRows)) True) = 4 \<and>
   map departure_time (renderedSchedules (hd (groupRoutesByPath limitedRows)) False) =
     [''08:00'', ''10:00'', ''12:00''] \<and>
   last (groupRoutesByPath limitedRows) \<in> set (groupRoutesByPath limitedRows) \<and>
   \<not> isLimitedPeriod (last (groupRoutesByPath limitedRows))"
proof -
  let ?g = "hd (groupRoutesByPath limitedRows)" and ?h = "last (groupRoutesByPath limitedRows)"
  have m: "?g \<in> set (groupRoutesByPath limitedRows)" by code_simp
  have n: "?h \<in> set (groupRoutesByPath limitedRows)" by code_simp
  have e: "\<exists>r \<in> set limitedRows. routeKeyOf r = routeKey ?g \<and> operating_days r = limitedPeriodMarker"
    by code_simp
  have f: "\<not> (\<exists>r \<in> set limitedRows. routeKeyOf r = routeKey ?h \<and> operating_days r = limitedPeriodMarker)"
    by code_simp
  have t: "totalSchedules ?g = 4" by code_simp
  have d: "map departure_time (renderedSchedules ?g True) = [''08:00'', ''10:00'', ''12:00'', ''14:00'']"
    by code_simp
  have flagged: "isLimitedPeriod ?g"
    using limited_flag_marks_and_keeps_rows[of ?g ?g limitedRows] m e by blast
  have len: "length (renderedSchedules ?g True) = 4"
    using limited_flag_marks_and_keeps_rows[of ?g ?g limitedRows] m t by simp
  have "renderedSchedules ?g False = take 3 (renderedSchedules ?g True)"
    using limited_flag_marks_and_keeps_rows[of ?g ?g limitedRows] m by blast
  then have pre: "map departure_time (renderedSchedules ?g False) = [''08:00'', ''10:00'', ''12:00'']"
    using d by (simp add: take_map[symmetric])
  have plain: "\<not> isLimitedPeriod ?h"
    using limited_flag_marks_and_keeps_rows[of ?h ?h limitedRows] n f by blast
  show ?thesis using m flagged d len pre n plain by blast
qed

text \<open>The three scenario rows: groups of two and of one.\<close>

theorem schedule_counts_sum_to_input_length_witness:
  "map totalSchedules (groupRoutesByPath scenarioRows) = [2, 1] \<and>
   sum_list (map totalSchedules (groupRoutesByPath scenarioRows)) = length scenarioRows \<and>
   length scenarioRows = 3"
proof -
  have "map totalSchedules (groupRoutesByPath scenarioRows) = [2, 1]" by code_simp
  moreover have "length scenarioRows = 3" by code_simp
  ultimately show ?thesis
    using schedule_counts_sum_to_input_length[of scenarioRows] by simp
qed

text \<open>
  When no departure port contains a hyphen the key determines the pair, and the groups
  are one per distinct pair, in first-seen order, each holding exactly the rows of its
  pair; rows whose two ports are equal are no exception.
\<close>

lemma append_sep_inj:
  "c \<notin> set xs \<Longrightarrow> c \<notin> set xs' \<Longrightarrow> xs @ c # ys = xs' @ c # ys' \<Longrightarrow> xs = xs' \<and> ys = ys'"
proof (induction xs arbitrary: xs')
  case Nil
  then show ?case by (cases xs') auto
next
  case (Cons x xs)
  then show ?case by (cases xs') auto
qed

lemma routeKeyOf_inj:
  assumes "CHR ''-'' \<notin> set (departure_port r)" and "CHR ''-'' \<notin> set (departure_port r')"
      and "routeKeyOf r = routeKeyOf r'"
  shows "routePair r = routePair r'"
  using append_sep_inj[OF assms(1,2), of "arrival_port r" "arrival_port r'"] assms(3)
  by (simp add: routeKeyOf_def routePair_def)

lemma routePair_key: "routePair r = routePair r' \<Longrightarrow> routeKeyOf r = routeKeyOf r'"
  by (simp add: routeKeyOf_def routePair_def)

lemma removeAll_map_inj:
  "inj_on f (insert x (set ys)) \<Longrightarrow> removeAll (f x) (map f ys) = map f (removeAll x ys)"
  by (induction ys) (auto simp: inj_on_def)

lemma firstSeen_map_inj: "inj_on f (set xs) \<Longrightarrow> firstSeen (map f xs) = map f (firstSeen xs)"
proof (induction xs)
  case Nil
  show ?case by simp
next
  case (Cons x xs)
  then have ih: "firstSeen (map f xs) = map f (firstSeen xs)" by simp
  have "inj_on f (insert x (set (firstSeen xs)))" using Cons.prems by simp
  then have "removeAll (f x) (map f (firstSeen xs)) = map f (removeAll x (firstSeen xs))"
    by (rule removeAll_map_inj)
  with ih show ?case by simp
qed

lemma hd_members:
  assumes "r \<in> set routes"
  shows "hd (members (routeKeyOf r) routes) \<in> set routes"
    and "routeKeyOf (hd (members (routeKeyOf r) routes)) = routeKeyOf r"
proof -
  have ne: "members (routeKeyOf r) routes \<noteq> []"
    using assms by (simp add: members_empty_iff)
  then have "hd (members (routeKeyOf r) routes) \<in> set (members (routeKeyOf r) routes)"
    by (rule hd_in_set)
  then show "hd (members (routeKeyOf r) routes) \<in> set routes"
    and "routeKeyOf (hd (members (routeKeyOf r) routes)) = routeKeyOf r"
    by (simp_all add: members_def)
qed

lemma groups_by_pair_without_hyphen:
  assumes nohyphen: "\<forall>r \<in> set routes. CHR ''-'' \<notin> set (departure_port r)"
  shows "map (\<lambda>g. (departure g, arrival g)) (groupRoutesByPath routes) = firstSeen (map routePair routes)"
    and "\<forall>g \<in> set (groupRoutesByPath routes).
           set (schedules g) = {r \<in> set routes. routePair r = (departure g, arrival g)}"
proof -
  define unkey where "unkey = (\<lambda>k. routePair (hd (members k routes)))"
  have free: "CHR ''-'' \<notin> set (departure_port r)" if "r \<in> set routes" for r
    using nohyphen that by (rule bspec)
  have unkey: "unkey (routeKeyOf r) = routePair r" if "r \<in> set routes" for r
    unfolding unkey_def
    by (rule routeKeyOf_inj[OF free[OF hd_members(1)[OF that]] free[OF that] hd_members(2)[OF that]])
  have inj: "inj_on unkey (set (map routeKeyOf routes))"
  proof (rule inj_onI)
    fix k k' assume "k \<in> set (map routeKeyOf routes)" "k' \<in> set (map routeKeyOf routes)"
      and eq: "unkey k = unkey k'"
    then obtain r r' where r: "r \<in> set routes" "k = routeKeyOf r"
      and r': "r' \<in> set routes" "k' = routeKeyOf r'" by auto
    have "routePair r = routePair r'"
      using eq unkey[OF r(1)] unkey[OF r'(1)] by (simp add: r(2) r'(2))
    then show "k = k'" unfolding r(2) r'(2) by (rule routePair_key)
  qed
  have "map (\<lambda>g. (departure g, arrival g)) (groupRoutesByPath routes) =
      map unkey (firstSeen (map routeKeyOf routes))"
    by (simp add: groupRoutesByPath_eq comp_def sortSchedules_fields groupOfMembers_fields
        unkey_def routePair_def)
  also have "\<dots> = firstSeen (map unkey (map routeKeyOf routes))"
    using inj by (simp only: firstSeen_map_inj)
  also have "map unkey (map routeKeyOf routes) = map routePair routes"
    using unkey by simp
  finally show "map (\<lambda>g. (departure g, arrival g)) (groupRoutesByPath routes) =
      firstSeen (map routePair routes)" .
  show "\<forall>g \<in> set (groupRoutesByPath routes).
      set (schedules g) = {r \<in> set routes. routePair r = (departure g, arrival g)}"
  proof
    fix g assume "g \<in> set (groupRoutesByPath routes)"
    then obtain k where k: "k \<in> routeKeyOf ` set routes"
      and g: "g = sortSchedules (groupOfMembers k (members k routes))"
      by (rule group_in_result)
    from k obtain r0 where r0: "r0 \<in> set routes" "k = routeKeyOf r0" by auto
    have pair: "(departure g, arrival g) = routePair r0"
      using unkey[OF r0(1)] by (simp add: g sortSchedules_fields groupOfMembers_fields
          unkey_def routePair_def r0(2))
    have "set (schedules g) = {r \<in> set routes. routeKeyOf r = routeKeyOf r0}"
      by (auto simp: g sortSchedules_fields groupOfMembers_fields set_sortBy members_def r0(2))
    also have "\<dots> = {r \<in> set routes. routePair r = routePair r0}"
    proof (rule Collect_cong, rule conj_cong[OF refl])
      fix r assume "r \<in> set routes"
      then show "(routeKeyOf r = routeKeyOf r0) = (routePair r = routePair r0)"
        using routeKeyOf_inj[OF free free, of r r0] r0(1) routePair_key[of r r0] by blast
    qed
    finally show "set (schedules g) = {r \<in> set routes. routePair r = (departure g, arrival g)}"
      using pair by simp
  qed
qed

end
